(* ===== verification/Prelude.thy ===== *)
theory Prelude
  imports Main "HOL-Library.Word"
begin

text \<open>
  Shared vocabulary of the development: the 32-bit \<open>unsigned long\<close> of the
  nRF52840 Arduino core (\<open>millis()\<close> and every timestamp the firmware stores),
  the two logic levels, the comma-joined label lists of the diagnostic
  markers, and the lemmas about wrap-around elapsed time that every timeout
  comparison of the firmware relies on.
\<close>

type_synonym u32 = "32 word"

text \<open>Arduino's \<open>HIGH\<close> and \<open>LOW\<close>: a logic level is a \<open>bool\<close>, \<open>HIGH\<close> is \<open>True\<close>.\<close>

abbreviation (input) HIGH :: bool where "HIGH \<equiv> True"
abbreviation (input) LOW :: bool where "LOW \<equiv> False"

named_theorems sampler_simps "closed forms of the Line Sampler loops"
named_theorems step_defs "definitions of the Master's per-state handlers"

subsection \<open>Joining labels\<close>

text \<open>\<open>join sep xs\<close> writes the strings of \<open>xs\<close> one after the other with \<open>sep\<close>
  between neighbours, as the diagnostic markers print their label lists.\<close>

fun join :: "string \<Rightarrow> string list \<Rightarrow> string" where
  "join sep [] = []"
| "join sep (x # xs) = (if xs = [] then x else x @ sep @ join sep xs)"

text \<open>The serial line encoding both firmwares use: \<open>Serial.println\<close> ends a
  line with CR LF, \<open>Serial.print\<close> of a string ending in \<open>\n\<close> with a bare
  LF, and the em dash of the stage lines is the UTF-8 sequence \<open>E2 80 94\<close>.\<close>

definition em_dash :: string where
  "em_dash = [CHR 0xE2, CHR 0x80, CHR 0x94]"

definition CRLF :: string where
  "CRLF = [CHR 0x0D, CHR 0x0A]"

definition LF :: string where
  "LF = [CHR 0x0A]"

lemma join_append_single:
  "xs \<noteq> [] \<Longrightarrow> join sep (xs @ [y]) = join sep xs @ sep @ y"
  by (induction xs) auto

subsection \<open>Elapsed time on a wrapping 32-bit clock\<close>

text \<open>The firmware measures durations as \<open>now - start\<close> on \<open>unsigned long\<close>.
  Read as a number, that difference is the distance travelled modulo \<open>2^32\<close>.\<close>

lemma unat_elapsed:
  "unat (b - (a :: u32)) = (unat b + 2 ^ 32 - unat a) mod 2 ^ 32"
proof -
  have "unat a < 2 ^ LENGTH(32)" "unat b < 2 ^ LENGTH(32)"
    by (rule unsigned_less)+
  then show ?thesis
    by (auto simp: unat_sub_if' le_mod_geq)
qed

lemma elapsed_of_nat:
  assumes "d < 2 ^ 32"
  shows "unat (word_of_nat (t + d) - (word_of_nat t :: u32)) = d"
proof -
  have "word_of_nat (t + d) - (word_of_nat t :: u32) = word_of_nat d"
    by simp
  then show ?thesis using assms by (simp add: unat_of_nat)
qed

lemma elapsed_add [simp]: "(a + d) - (a :: u32) = d"
  by simp

text \<open>One \<open>delay(10)\<close> of a wait bounded by 3000 ms advances the elapsed
  time by exactly 10: the difference cannot wrap.\<close>

lemma unat_elapsed_step:
  assumes "clk - t0 < (3000 :: u32)"
  shows "unat (clk + 10 - t0) = unat (clk - t0) + 10"
proof -
  have "unat (clk - t0) < 3000" using assms by (simp add: word_less_nat_alt)
  then have "unat (clk - t0) + unat (10 :: u32) < 2 ^ LENGTH(32)" by simp
  then have u: "unat ((clk - t0) + 10) = unat (clk - t0) + unat (10 :: u32)"
    by (rule iffD1 [OF unat_add_lem])
  have e: "clk + 10 - t0 = (clk - t0) + 10" by (simp add: algebra_simps)
  show ?thesis unfolding e using u by simp
qed

end
