(* ===== verification/Roster.thy ===== *)
theory Roster
  imports Prelude
begin

text \<open>
  The Line Roster and the Line Sampler of the Master firmware
  (\<open>src/mcu_firmwares/target_firmware/src/main.cpp\<close>, the second file of the
  concatenation, from line 113).  The roster is the array \<open>TEST_PINS\<close> with
  its parallel array of labels \<open>TEST_LABELS\<close>.  A pin is named by its Arduino
  macro (\<open>P1_07\<close>, \<open>P0_31\<close>, ...): the numbers behind the macros are board
  definitions outside the repository and play no role in the protocol.

  The sampler is the three loops over the roster that the Master runs on the
  levels read by \<open>digitalRead(TEST_PINS[i])\<close>.  One loop iteration of the
  Master reads the lines within microseconds; the model reads them once per
  iteration, as a snapshot \<open>lv :: bool list\<close> with \<open>lv ! i\<close> the level of
  \<open>TEST_PINS[i]\<close>.  Each loop is translated with its index and its early
  exit, and proved equal to a closed form on lists.
\<close>

subsection \<open>The roster\<close>

definition MASTER_TEST_PINS :: "string list" where
  "MASTER_TEST_PINS =
    [''P1_07'', ''P0_31'', ''P0_29'', ''P0_02'', ''P1_15'', ''P1_13'', ''P1_11'',
     ''P0_10'', ''P0_09'', ''P1_06'', ''P1_04'', ''P0_11'', ''P1_00'', ''P0_24'',
     ''P0_22'', ''P0_20'', ''P0_17'', ''P0_08'', ''P0_06'']"

definition NUM_TEST_PINS :: nat where
  "NUM_TEST_PINS = length MASTER_TEST_PINS"

definition TEST_LABELS :: "string list" where
  "TEST_LABELS =
    [''P1_07(VCC)'', ''P0_31'', ''P0_29'', ''P0_02'', ''P1_15'', ''P1_13'', ''P1_11'',
     ''P0_10'', ''P0_09'', ''P1_06'', ''P1_04'', ''P0_11'', ''P1_00'', ''P0_24'',
     ''P0_22'', ''P0_20'', ''P0_17'', ''P0_08'', ''P0_06'']"

subsection \<open>All lines at one level: the loop with \<open>break\<close>\<close>

text \<open>
  \<^verbatim>\<open>bool allHigh = true;
for (int i = 0; i < NUM_TEST_PINS; i++) {
  if (digitalRead(TEST_PINS[i]) != HIGH) { allHigh = false; break; }
}\<close>
  The same loop with \<open>LOW\<close> decides \<open>allLow\<close>.
\<close>

function all_at_loop :: "bool \<Rightarrow> bool list \<Rightarrow> nat \<Rightarrow> bool" where
  "all_at_loop level lv i =
     (if i < length lv then
        (if lv ! i \<noteq> level then False else all_at_loop level lv (Suc i))
      else True)"
  by pat_completeness auto
termination
  by (relation "measure (\<lambda>(level, lv, i). length lv - i)") auto

declare all_at_loop.simps [simp del]

definition all_at :: "bool \<Rightarrow> bool list \<Rightarrow> bool" where
  "all_at level lv = all_at_loop level lv 0"

subsection \<open>Counting the high lines\<close>

text \<open>
  \<^verbatim>\<open>int highCount = 0;
int highIdx = -1;
for (int i = 0; i < NUM_TEST_PINS; i++) {
  int lvl = digitalRead(TEST_PINS[i]);
  if (lvl == HIGH) { highCount++; highIdx = i; }
}\<close>
  Both counters are C \<open>int\<close>s; they stay between \<open>-1\<close> and the roster
  length, far from overflow, so they are modelled as \<open>int\<close>.
\<close>

function count_high_loop :: "bool list \<Rightarrow> nat \<Rightarrow> int \<Rightarrow> int \<Rightarrow> int \<times> int" where
  "count_high_loop lv i highCount highIdx =
     (if i < length lv then
        (if lv ! i = HIGH then count_high_loop lv (Suc i) (highCount + 1) (int i)
         else count_high_loop lv (Suc i) highCount highIdx)
      else (highCount, highIdx))"
  by pat_completeness auto
termination
  by (relation "measure (\<lambda>(lv, i, c, h). length lv - i)") auto

declare count_high_loop.simps [simp del]

definition count_high :: "bool list \<Rightarrow> int \<times> int" where
  "count_high lv = count_high_loop lv 0 0 (-1)"

subsection \<open>Printing the lines at one level\<close>

text \<open>
  \<open>printDynamicPinsByLevel(level)\<close> prints the labels of the lines at
  \<open>level\<close>, separated by \<open>", "\<close>, then ends the line.  The model returns the
  text printed before the final \<open>Serial.println()\<close>; the line end is added
  where the marker is rendered.
\<close>

function print_pins_loop ::
  "string list \<Rightarrow> bool list \<Rightarrow> bool \<Rightarrow> nat \<Rightarrow> bool \<Rightarrow> string \<Rightarrow> string" where
  "print_pins_loop lbl lv level i first acc =
     (if i < length lv then
        (if lv ! i = level then
           print_pins_loop lbl lv level (Suc i) False
             (acc @ (if \<not> first then '', '' else []) @ lbl ! i)
         else print_pins_loop lbl lv level (Suc i) first acc)
      else acc)"
  by pat_completeness auto
termination
  by (relation "measure (\<lambda>(lbl, lv, level, i, first, acc). length lv - i)") auto

declare print_pins_loop.simps [simp del]

definition printDynamicPinsByLevel :: "string list \<Rightarrow> bool list \<Rightarrow> bool \<Rightarrow> string" where
  "printDynamicPinsByLevel lbl lv level = print_pins_loop lbl lv level 0 True []"

text \<open>The labels of the lines at \<open>level\<close>, in roster order: the reference
  against which the printing loop is checked.\<close>

definition labels_at :: "string list \<Rightarrow> bool list \<Rightarrow> bool \<Rightarrow> string list" where
  "labels_at lbl lv level = map ((!) lbl) (filter (\<lambda>j. lv ! j = level) [0..<length lv])"

text \<open>The positions of the high lines, in roster order.\<close>

definition high_idxs :: "bool list \<Rightarrow> nat list" where
  "high_idxs lv = filter (\<lambda>j. lv ! j) [0..<length lv]"

subsection \<open>Closed forms of the loops\<close>

lemma all_at_loop_eq:
  "all_at_loop level lv i = list_all (\<lambda>x. x = level) (drop i lv)"
proof (induction level lv i rule: all_at_loop.induct)
  case (1 level lv i)
  show ?case
  proof (cases "i < length lv")
    case False
    then show ?thesis by (simp add: all_at_loop.simps [of level lv i])
  next
    case True
    then have "drop i lv = lv ! i # drop (Suc i) lv" by (rule Cons_nth_drop_Suc [symmetric])
    with True "1.IH" show ?thesis by (simp add: all_at_loop.simps [of level lv i])
  qed
qed

lemma count_high_loop_eq:
  "count_high_loop lv i c h =
     (c + int (length (filter (\<lambda>j. lv ! j) [i..<length lv])),
      if filter (\<lambda>j. lv ! j) [i..<length lv] = [] then h
      else int (last (filter (\<lambda>j. lv ! j) [i..<length lv])))"
proof (induction lv i c h rule: count_high_loop.induct)
  case (1 lv i c h)
  show ?case
  proof (cases "i < length lv")
    case False
    then show ?thesis by (simp add: count_high_loop.simps [of lv i c h])
  next
    case True
    then have u: "[i..<length lv] = i # [Suc i..<length lv]" by (simp add: upt_conv_Cons)
    show ?thesis
    proof (cases "lv ! i")
      case hi: True
      have "filter (\<lambda>j. lv ! j) [Suc i..<length lv] = [] \<or>
            last (i # filter (\<lambda>j. lv ! j) [Suc i..<length lv]) =
            last (filter (\<lambda>j. lv ! j) [Suc i..<length lv])"
        by simp
      with True hi "1.IH"(1) show ?thesis
        by (auto simp: count_high_loop.simps [of lv i c h] u)
    next
      case lo: False
      with True "1.IH"(2) show ?thesis
        by (simp add: count_high_loop.simps [of lv i c h] u)
    qed
  qed
qed

lemma print_pins_loop_eq:
  "print_pins_loop lbl lv level i first acc =
     (let ls = map ((!) lbl) (filter (\<lambda>j. lv ! j = level) [i..<length lv])
      in if ls = [] then acc else acc @ (if first then [] else '', '') @ join '', '' ls)"
proof (induction lbl lv level i first acc rule: print_pins_loop.induct)
  case (1 lbl lv level i first acc)
  show ?case
  proof (cases "i < length lv")
    case False
    then show ?thesis by (simp add: print_pins_loop.simps [of lbl lv level i first acc])
  next
    case True
    then have u: "[i..<length lv] = i # [Suc i..<length lv]" by (simp add: upt_conv_Cons)
    show ?thesis
    proof (cases "lv ! i = level")
      case hit: True
      with True "1.IH"(1) show ?thesis
        by (simp add: print_pins_loop.simps [of lbl lv level i first acc] u Let_def)
    next
      case miss: False
      with True "1.IH"(2) show ?thesis
        by (simp add: print_pins_loop.simps [of lbl lv level i first acc] u)
    qed
  qed
qed

lemma count_high_eq [sampler_simps]:
  "count_high lv =
     (int (length (high_idxs lv)), if high_idxs lv = [] then -1 else int (last (high_idxs lv)))"
  by (simp add: count_high_def count_high_loop_eq high_idxs_def)

lemma filter_upt_single: "k < n \<Longrightarrow> filter (\<lambda>j. j = k) [0..<n] = [k]"
proof (induction n)
  case 0
  then show ?case by simp
next
  case (Suc n)
  show ?case
  proof (cases "k < n")
    case True
    with Suc show ?thesis by simp
  next
    case False
    with Suc.prems have "k = n" by simp
    then show ?thesis by (simp add: filter_empty_conv)
  qed
qed

lemma high_idxs_single:
  assumes "k < n" shows "high_idxs ((replicate n LOW)[k := HIGH]) = [k]"
proof -
  have "high_idxs ((replicate n LOW)[k := HIGH]) = filter (\<lambda>j. j = k) [0..<n]"
    unfolding high_idxs_def using assms by (intro filter_cong) (auto simp: nth_list_update)
  with assms show ?thesis by (simp add: filter_upt_single)
qed

lemma high_idxs_none [simp]: "high_idxs (replicate n LOW) = []"
  by (auto simp: high_idxs_def filter_empty_conv)

lemma high_idxs_ge2:
  assumes "j < length lv" "k < length lv" "j \<noteq> k" "lv ! j" "lv ! k"
  shows "2 \<le> length (high_idxs lv)"
proof -
  have "{j, k} \<subseteq> set (high_idxs lv)" using assms by (auto simp: high_idxs_def)
  then have "card {j, k} \<le> card (set (high_idxs lv))" by (rule card_mono [OF finite_set])
  also have "\<dots> \<le> length (high_idxs lv)" by (rule card_length)
  finally show ?thesis using assms(3) by simp
qed

lemma high_idxs_one:
  assumes "high_idxs lv = [k]"
  shows "k < length lv" "lv ! k" "\<And>j. j < length lv \<Longrightarrow> lv ! j \<Longrightarrow> j = k"
proof -
  have k: "k \<in> set (high_idxs lv)" using assms by simp
  then show "k < length lv" "lv ! k" by (auto simp: high_idxs_def)
  fix j assume "j < length lv" "lv ! j"
  then have "j \<in> set (high_idxs lv)" by (simp add: high_idxs_def)
  with assms show "j = k" by simp
qed

lemma high_idxs_empty_iff: "high_idxs lv = [] \<longleftrightarrow> (\<forall>j < length lv. \<not> lv ! j)"
  by (auto simp: high_idxs_def filter_empty_conv)

subsection \<open>The sampler's contract\<close>

text \<open>C21: the early-exit loop that computes \<open>allHigh\<close> and \<open>allLow\<close>
  decides exactly whether every roster line reads the given level.\<close>

lemma all_at_eq: "all_at level lv = list_all (\<lambda>x. x = level) lv"
  by (simp add: all_at_def all_at_loop_eq)

text \<open>C22: \<open>printDynamicPinsByLevel\<close> prints the labels of the lines at the
  given level, in roster order, separated by \<open>", "\<close>, and nothing else.\<close>

lemma printDynamicPinsByLevel_eq:
  "printDynamicPinsByLevel lbl lv level = join '', '' (labels_at lbl lv level)"
  by (simp add: printDynamicPinsByLevel_def print_pins_loop_eq labels_at_def Let_def)

end
