(* ===== verification/Markers.thy ===== *)
theory Markers
  imports Prelude
begin

text \<open>
  The Master's external interface: the status lines it writes on the serial
  link and the writes to its reset-drive output.  A status line is a value of
  \<open>marker\<close>, one constructor per distinct \<open>Serial.print\<close>/\<open>println\<close> text
  of the Master's \<open>main.cpp\<close>; \<open>marker_text\<close> gives the exact bytes the
  firmware sends for it (the source's em dash is the UTF-8 sequence
  \<open>E2 80 94\<close>; \<open>println\<close> ends a line with CR LF; the success line alone
  is sent with \<open>print\<close> and a bare LF).  Markers whose text carries a
  payload (a label, a comma-joined label list) hold it as a string.
  An \<open>io_event\<close> is one effect of the Master on the outside world, in the
  order it happens: a status line, or a level written to the reset line at a
  given \<open>millis()\<close> time.
\<close>

datatype marker =
    M_READY
  | M_START_CMD
  | M_FLASH_CMD
  | M_SENT_RESET
  | M_IDLE
  | M_START
  | M_ALL_HIGH_BEGIN
  | M_ALL_HIGH_OK
  | M_ALL_HIGH_ERROR string
  | M_ALL_LOW_BEGIN
  | M_ALL_LOW_OK
  | M_ALL_LOW_ERROR string
  | M_SEQ_BEGIN
  | M_SEQ_FAIL_PINS string
  | M_SEQ_OK string
  | M_SEQ_ALL_OK
  | M_SEQ_ORDER string string
  | M_SEQ_REPEATED string
  | M_SEQ_TIMEOUT string
  | M_SUCCESS
  | M_FAIL

datatype io_event =
    Tx marker
  | Reset_write bool u32

text \<open>\<open>stage s rest\<close> is the common shape \<open>Master: STAGE \<mdash> s\<close> of the stage lines.\<close>

definition stage :: "string \<Rightarrow> string" where
  "stage s = ''Master: STAGE '' @ em_dash @ '' '' @ s"

primrec marker_text :: "marker \<Rightarrow> string" where
  "marker_text M_READY = ''Master: READY'' @ CRLF"
| "marker_text M_START_CMD = ''Master: START command received.'' @ CRLF"
| "marker_text M_FLASH_CMD = ''Master: FLASH command received.'' @ CRLF"
| "marker_text M_SENT_RESET = ''Master: SENT RESET'' @ CRLF"
| "marker_text M_IDLE = stage ''IDLE: OK'' @ CRLF"
| "marker_text M_START = ''Master: START'' @ CRLF"
| "marker_text M_ALL_HIGH_BEGIN = stage ''ALL_HIGH: BEGIN'' @ CRLF"
| "marker_text M_ALL_HIGH_OK = stage ''ALL_HIGH: OK'' @ CRLF"
| "marker_text (M_ALL_HIGH_ERROR pins) = stage ''ALL_HIGH: ERROR. LOW_PINS: '' @ pins @ CRLF"
| "marker_text M_ALL_LOW_BEGIN = stage ''ALL_LOW: BEGIN'' @ CRLF"
| "marker_text M_ALL_LOW_OK = stage ''ALL_LOW: OK'' @ CRLF"
| "marker_text (M_ALL_LOW_ERROR pins) = stage ''ALL_LOW: ERROR. HIGH_PINS: '' @ pins @ CRLF"
| "marker_text M_SEQ_BEGIN = stage ''SEQUENCE: BEGIN'' @ CRLF"
| "marker_text (M_SEQ_FAIL_PINS pins) = stage ''SEQUENCE: ERROR. FAIL_PINS: '' @ pins @ CRLF"
| "marker_text (M_SEQ_OK l) = stage ''SEQUENCE: OK '' @ em_dash @ '' '' @ l @ CRLF"
| "marker_text M_SEQ_ALL_OK = stage ''SEQUENCE: ALL OK'' @ CRLF"
| "marker_text (M_SEQ_ORDER e r) =
     stage ''SEQUENCE: ERROR. THE ORDER OF SEQUENCE IS VIOLATED. EXPECTED: '' @ e @
     '', RECIVED '' @ r @ CRLF"
| "marker_text (M_SEQ_REPEATED l) = stage ''SEQUENCE: ERROR. REPEATED/EARLIER RAISE '' @ l @ CRLF"
| "marker_text (M_SEQ_TIMEOUT l) = stage ''SEQUENCE: ERROR. TIMEOUT. EXPECTED: '' @ l @ CRLF"
| "marker_text M_SUCCESS = stage ''SUCCESS: OK'' @ LF"
| "marker_text M_FAIL = ''Master: FAIL'' @ CRLF"

text \<open>The status lines of an event log, in order, and the bytes on the wire.\<close>

fun tx_markers :: "io_event list \<Rightarrow> marker list" where
  "tx_markers [] = []"
| "tx_markers (Tx m # es) = m # tx_markers es"
| "tx_markers (Reset_write b t # es) = tx_markers es"

definition serial_bytes :: "io_event list \<Rightarrow> string" where
  "serial_bytes es = concat (map marker_text (tx_markers es))"

text \<open>The writes to the reset line, in order.\<close>

fun reset_writes :: "io_event list \<Rightarrow> (bool \<times> u32) list" where
  "reset_writes [] = []"
| "reset_writes (Tx m # es) = reset_writes es"
| "reset_writes (Reset_write b t # es) = (b, t) # reset_writes es"

lemma tx_markers_append [simp]: "tx_markers (xs @ ys) = tx_markers xs @ tx_markers ys"
  by (induction xs rule: tx_markers.induct) simp_all

lemma reset_writes_append [simp]: "reset_writes (xs @ ys) = reset_writes xs @ reset_writes ys"
  by (induction xs rule: reset_writes.induct) simp_all

end
