(* ===== verification/Command.thy ===== *)
theory Command
  imports Prelude
begin

text \<open>
  The Command Channel: the Master reads one line from the serial link with
  \<open>Serial.readStringUntil('\n')\<close> (the terminator is consumed and not part
  of the string), trims it with Arduino's \<open>String::trim\<close> and compares it
  with \<open>String::equalsIgnoreCase\<close> against \<open>"START"\<close>, then \<open>"FLASH"\<close> and
  \<open>"DFU"\<close>.  \<open>trim\<close> and \<open>equalsIgnoreCase\<close> belong to the Arduino core,
  not to this repository: they are modelled from their documented behaviour
  (C \<open>isspace\<close> and ASCII \<open>tolower\<close>).  \<open>classify_cmd\<close> is the
  repository's \<open>if\<close>/\<open>else if\<close> chain; what the Master then does with the
  result is part of its loop (theory \<open>Sequencer\<close>).
\<close>

definition is_space :: "char \<Rightarrow> bool" where
  "is_space c \<longleftrightarrow> c \<in> {CHR '' '', CHR 0x09, CHR 0x0A, CHR 0x0B, CHR 0x0C, CHR 0x0D}"

definition trim :: "string \<Rightarrow> string" where
  "trim s = rev (dropWhile is_space (rev (dropWhile is_space s)))"

definition to_lower :: "char \<Rightarrow> char" where
  "to_lower c =
     (if 65 \<le> (of_char c :: nat) \<and> (of_char c :: nat) \<le> 90 then char_of (of_char c + (32 :: nat))
      else c)"

definition equalsIgnoreCase :: "string \<Rightarrow> string \<Rightarrow> bool" where
  "equalsIgnoreCase a b \<longleftrightarrow> length a = length b \<and> map to_lower a = map to_lower b"

datatype cmd_intent = StartRequested | FlashRequested | Ignored

definition classify_cmd :: "string \<Rightarrow> cmd_intent" where
  "classify_cmd line =
     (let cmd = trim line in
      if equalsIgnoreCase cmd ''START'' then StartRequested
      else if equalsIgnoreCase cmd ''FLASH'' \<or> equalsIgnoreCase cmd ''DFU'' then FlashRequested
      else Ignored)"

text \<open>C15: the Master starts a test on a serial line exactly when, once trimmed
  of surrounding whitespace, it reads \<open>start\<close> in any mix of upper and lower
  case.\<close>

theorem classify_start_iff:
  "classify_cmd line = StartRequested \<longleftrightarrow> map to_lower (trim line) = ''start''"
proof -
  have l: "map to_lower ''START'' = ''start''" by code_simp
  have "equalsIgnoreCase (trim line) ''START'' \<longleftrightarrow> map to_lower (trim line) = ''start''"
    unfolding equalsIgnoreCase_def l by (auto dest: map_eq_imp_length_eq)
  then show ?thesis by (simp add: classify_cmd_def Let_def)
qed

text \<open>C16: it enters update mode on a line exactly when, once trimmed, it reads
  \<open>flash\<close> or \<open>dfu\<close> in any case; every other line is ignored.\<close>

theorem classify_flash_iff:
  "classify_cmd line = FlashRequested \<longleftrightarrow>
     map to_lower (trim line) \<in> {''flash'', ''dfu''}"
proof -
  have l: "map to_lower ''START'' = ''start''" "map to_lower ''FLASH'' = ''flash''"
          "map to_lower ''DFU'' = ''dfu''" by code_simp+
  have e: "equalsIgnoreCase x y \<longleftrightarrow> map to_lower x = map to_lower y" for x y
    unfolding equalsIgnoreCase_def by (auto dest: map_eq_imp_length_eq)
  define m where "m = map to_lower (trim line)"
  have "classify_cmd line = (if m = ''start'' then StartRequested
                             else if m = ''flash'' \<or> m = ''dfu'' then FlashRequested else Ignored)"
    unfolding classify_cmd_def Let_def e l m_def ..
  then show ?thesis unfolding m_def [symmetric] by auto
qed

end
