(* ===== verification/Debounce.thy ===== *)
theory Debounce
  imports Prelude
begin

text \<open>
  The Debounced Input: the Master's button on \<open>BUTTON_PIN\<close> (\<open>INPUT_PULLUP\<close>,
  so \<open>LOW\<close> is pressed).  Its state is the pair of globals
  \<open>lastButtonEdgeMs\<close> and \<open>lastButtonState\<close>; the Master's full state
  extends this record.  \<open>debounce\<close> is the block at the top of \<open>loop()\<close>
  that records an edge and computes \<open>pressed\<close>:
  \<^verbatim>\<open>bool btn = digitalRead(BUTTON_PIN);
if (btn != lastButtonState) { lastButtonEdgeMs = now; lastButtonState = btn; }
bool pressed = (btn == LOW) && (now - lastButtonEdgeMs > DEBOUNCE_MS);\<close>
\<close>

record btn_state =
  lastButtonEdgeMs :: u32
  lastButtonState :: bool

definition DEBOUNCE_MS :: u32 where
  "DEBOUNCE_MS = 50"

definition debounce :: "u32 \<Rightarrow> bool \<Rightarrow> 'a btn_state_scheme \<Rightarrow> 'a btn_state_scheme \<times> bool" where
  "debounce now btn s =
     (let s' = (if btn \<noteq> lastButtonState s
                then s\<lparr>lastButtonEdgeMs := now, lastButtonState := btn\<rparr> else s)
      in (s', btn = LOW \<and> now - lastButtonEdgeMs s' > DEBOUNCE_MS))"

lemma debounce_pressed:
  "snd (debounce now btn s) \<longleftrightarrow>
     btn = LOW \<and> lastButtonState s = LOW \<and> now - lastButtonEdgeMs s > DEBOUNCE_MS"
  by (auto simp: debounce_def Let_def)

lemma debounce_state:
  "lastButtonState (fst (debounce now btn s)) = btn \<and>
   lastButtonEdgeMs (fst (debounce now btn s)) =
     (if btn \<noteq> lastButtonState s then now else lastButtonEdgeMs s)"
  by (simp add: debounce_def Let_def)

text \<open>C17: a press is reported only once the button has read low at two
  successive polls more than 50 ms apart.  From a released button, the poll
  that first reads low records the edge and reports nothing; the next poll
  that still reads low reports a press exactly when more than 50 ms have
  passed since that edge, and the button is then recorded as low.\<close>

theorem debounce_held_press:
  assumes "lastButtonState s = HIGH"
  shows "\<not> snd (debounce t1 LOW s) \<and>
         (snd (debounce t2 LOW (fst (debounce t1 LOW s))) \<longleftrightarrow> t2 - t1 > DEBOUNCE_MS) \<and>
         lastButtonState (fst (debounce t2 LOW (fst (debounce t1 LOW s)))) = LOW"
  using assms by (simp add: debounce_pressed debounce_state)

theorem debounce_held_press_witness:
  "\<not> snd (debounce 1000 LOW \<lparr>lastButtonEdgeMs = 0, lastButtonState = HIGH\<rparr>) \<and>
   snd (debounce 1100 LOW (fst (debounce 1000 LOW \<lparr>lastButtonEdgeMs = 0, lastButtonState = HIGH\<rparr>))) \<and>
   \<not> snd (debounce 1040 LOW (fst (debounce 1000 LOW \<lparr>lastButtonEdgeMs = 0, lastButtonState = HIGH\<rparr>)))"
proof -
  have h: "lastButtonState \<lparr>lastButtonEdgeMs = (0::u32), lastButtonState = HIGH\<rparr> = HIGH" by simp
  from debounce_held_press [OF h, of 1000 1100] debounce_held_press [OF h, of 1000 1040]
  show ?thesis by (simp add: DEBOUNCE_MS_def)
qed

end
