(* ===== verification/Reset.thy ===== *)
theory Reset
  imports Markers
begin

text \<open>
  The Reset Pulse Generator of the Master: \<open>pulseReset\<close> drives
  \<open>RESET_SENDER_PIN\<close> low for 100 ms, \<open>enterFlashMode\<close> sends two such
  pulses 200 ms apart after announcing the flash command.  Both block in
  \<open>delay()\<close>; the model threads the \<open>millis()\<close> clock through them: each
  takes the time at which it starts and returns its events and the time at
  which it returns.
\<close>

definition pulseReset :: "u32 \<Rightarrow> io_event list \<times> u32" where
  "pulseReset t =
     ([Tx M_SENT_RESET, Reset_write LOW t, Reset_write HIGH (t + 100)], t + 100)"

definition enterFlashMode :: "u32 \<Rightarrow> io_event list \<times> u32" where
  "enterFlashMode t =
     (let (e1, t1) = pulseReset t;
          (e2, t2) = pulseReset (t1 + 200)
      in (Tx M_FLASH_CMD # e1 @ e2, t2))"

end
