(* ===== verification/Serial_Wait.thy ===== *)
theory Serial_Wait
  imports Prelude
begin

text \<open>
  The wait for the USB serial port at the top of both \<open>setup()\<close> functions
  (\<open>main.cpp\<close> lines 62--65 of the Target, 227--230 of the Master):
  \<^verbatim>\<open>unsigned long t0 = millis();
while (!Serial && (millis() - t0) < 3000) { delay(10); }\<close>
  \<open>ready t\<close> is the value of \<open>(bool) Serial\<close> when \<open>millis()\<close> reads
  \<open>t\<close>; \<open>serial_wait ready t0 clk\<close> is the clock when the loop, entered at
  \<open>clk\<close>, exits.  The loop is a \<open>function\<close> whose termination is proved with
  the measure \<open>3000 - unat (clk - t0)\<close> on the wrapping clock
  (\<open>unat_elapsed_step\<close> of the prelude); \<open>serial_wait_bound\<close> shows it
  returns within 3000 ms, early only once the port is up.
\<close>

function serial_wait :: "(u32 \<Rightarrow> bool) \<Rightarrow> u32 \<Rightarrow> u32 \<Rightarrow> u32" where
  "serial_wait ready t0 clk =
     (if \<not> ready clk \<and> clk - t0 < 3000 then serial_wait ready t0 (clk + 10) else clk)"
  by pat_completeness auto

termination
proof (relation "measure (\<lambda>(ready, t0, clk). 3000 - unat (clk - t0))")
  fix ready t0 clk
  assume a: "\<not> ready clk \<and> clk - t0 < (3000 :: u32)"
  then have "unat (clk - t0) < 3000" by (simp add: word_less_nat_alt)
  with unat_elapsed_step [of clk t0] a
  show "((ready, t0, clk + 10), ready, t0, clk) \<in> measure (\<lambda>(ready, t0, clk). 3000 - unat (clk - t0))"
    by simp
qed simp

declare serial_wait.simps [simp del]

lemma serial_wait_bound:
  "unat (clk - t0) \<le> 3000 \<Longrightarrow> 10 dvd unat (clk - t0) \<Longrightarrow>
   unat (serial_wait ready t0 clk - t0) \<le> 3000 \<and>
   (ready (serial_wait ready t0 clk) \<or> unat (serial_wait ready t0 clk - t0) = 3000)"
proof (induction ready t0 clk rule: serial_wait.induct)
  case (1 ready t0 clk)
  show ?case
  proof (cases "\<not> ready clk \<and> clk - t0 < 3000")
    case True
    then have u: "unat (clk + 10 - t0) = unat (clk - t0) + 10" by (simp add: unat_elapsed_step)
    have "unat (clk - t0) < 3000" using True by (simp add: word_less_nat_alt)
    with "1.prems" have "unat (clk - t0) + 10 \<le> 3000" by (auto elim!: dvdE)
    with "1.IH" [OF True] "1.prems" u True show ?thesis
      by (simp add: serial_wait.simps [of ready t0 clk])
  next
    case False
    with "1.prems" show ?thesis
      by (auto simp: serial_wait.simps [of ready t0 clk] word_less_nat_alt)
  qed
qed


text \<open>C19: the serial wait of \<open>setup()\<close> always returns, at most 3000 ms after
  it starts, and before the 3000 ms only once the port is up.\<close>

theorem serial_wait_within_3000:
  "unat (serial_wait ready t0 t0 - t0) \<le> 3000 \<and>
   (ready (serial_wait ready t0 t0) \<or> unat (serial_wait ready t0 t0 - t0) = 3000)"
  using serial_wait_bound [of t0 t0 ready] by simp

end
