(* ===== verification/Sequencer.thy ===== *)
theory Sequencer
  imports Roster Markers Command Debounce Reset Serial_Wait
begin

text \<open>
  The Test Sequencer: the Master's \<open>setup()\<close> and \<open>loop()\<close>
  (\<open>main.cpp\<close> lines 173--465).  The firmware's globals are the record
  \<open>mstate\<close>, which extends the button state of theory \<open>Debounce\<close>; the
  serial output and the reset-line writes accumulate in its field \<open>out\<close>.
  One call of \<open>loop()\<close> is \<open>master_loop lbl i s\<close>: \<open>lbl\<close> is the roster
  (\<open>TEST_LABELS\<close>, its length is \<open>NUM_TEST_PINS\<close>), \<open>i\<close> is what the
  outside world shows this iteration (a \<open>tick\<close>), and the result is \<open>None\<close>
  exactly when the iteration never returns: it blocks in
  \<open>while (digitalRead(BUTTON_PIN) == LOW) delay(10);\<close> and the button is not
  released within the readings the tick provides.

  Inside one iteration the model follows \<open>millis()\<close> as a clock \<open>clk\<close>
  that starts at \<open>now\<close> and advances by every \<open>delay()\<close> the iteration
  performs (the flash double pulse, the release wait, the reset pulse);
  \<open>toState\<close> stamps the new stage with it, as \<open>stateStartMs = millis()\<close>
  does.  Time spent in \<open>Serial\<close> and \<open>digitalRead\<close> is taken as zero.
\<close>

subsection \<open>State, inputs, constants\<close>

datatype TestState =
    STATE_WAIT_BUTTON
  | STATE_WAIT_ALL_HIGH
  | STATE_WAIT_ALL_LOW
  | STATE_SEQUENCE
  | STATE_SUCCESS
  | STATE_FAIL

definition PRECHECK_TIMEOUT_MS :: u32 where "PRECHECK_TIMEOUT_MS = 3000"
definition LOW_STAGE_TIMEOUT_MS :: u32 where "LOW_STAGE_TIMEOUT_MS = 3000"
definition SEQUENCE_TIMEOUT_MS :: u32 where "SEQUENCE_TIMEOUT_MS = 15000"

record mstate = btn_state +
  state :: TestState
  stateStartMs :: u32
  lastBlinkMs :: u32
  expectedIndex :: int
  pinWasHigh :: "bool list"
  precheckAllHighOk :: bool
  precheckAllLowOk :: bool
  startRequested :: bool
  beginAllHighPrinted :: bool
  beginAllLowPrinted :: bool
  beginSequencePrinted :: bool
  beginFailPrinted :: bool
  ledStatus :: bool
  out :: "io_event list"

text \<open>What one iteration of \<open>loop()\<close> reads: \<open>millis()\<close> at its start, the
  line returned by \<open>Serial.readStringUntil('\n')\<close> if \<open>Serial.available()\<close>,
  the button, the successive button readings of the release wait, and the
  levels of the roster lines.\<close>

record tick =
  t_now :: u32
  t_cmd :: "string option"
  t_btn :: bool
  t_release :: "bool list"
  t_pins :: "bool list"

definition emit :: "marker \<Rightarrow> mstate \<Rightarrow> mstate" where
  "emit m s = s\<lparr>out := out s @ [Tx m]\<rparr>"

definition toState :: "TestState \<Rightarrow> u32 \<Rightarrow> mstate \<Rightarrow> mstate" where
  "toState st clk s = s\<lparr>state := st, stateStartMs := clk\<rparr>"

subsection \<open>setup()\<close>

definition master_setup :: "string list \<Rightarrow> u32 \<Rightarrow> mstate" where
  "master_setup lbl t =
     \<lparr>lastButtonEdgeMs = 0, lastButtonState = HIGH,
      state = STATE_WAIT_BUTTON, stateStartMs = t, lastBlinkMs = 0, expectedIndex = 0,
      pinWasHigh = replicate (length lbl) False,
      precheckAllHighOk = False, precheckAllLowOk = False, startRequested = False,
      beginAllHighPrinted = False, beginAllLowPrinted = False,
      beginSequencePrinted = False, beginFailPrinted = False,
      ledStatus = LOW, out = [Reset_write HIGH t, Tx M_READY]\<rparr>"

text \<open>Power-up: the serial wait shared with the Target, then the rest of
  \<open>setup()\<close> at the clock the wait returns.\<close>

definition master_boot :: "string list \<Rightarrow> (u32 \<Rightarrow> bool) \<Rightarrow> u32 \<Rightarrow> mstate" where
  "master_boot lbl ready t0 = master_setup lbl (serial_wait ready t0 t0)"

subsection \<open>The serial command at the top of loop()\<close>

definition serial_poll :: "string option \<Rightarrow> u32 \<Rightarrow> mstate \<Rightarrow> mstate \<times> u32" where
  "serial_poll cmd clk s =
     (case cmd of
        None \<Rightarrow> (s, clk)
      | Some line \<Rightarrow>
          (case classify_cmd line of
             StartRequested \<Rightarrow> (emit M_START_CMD (s\<lparr>startRequested := True\<rparr>), clk)
           | FlashRequested \<Rightarrow>
               (let (es, clk') = enterFlashMode clk in (s\<lparr>out := out s @ es\<rparr>, clk'))
           | Ignored \<Rightarrow> (s, clk)))"

subsection \<open>Blocking until the button is released\<close>

text \<open>\<open>while (digitalRead(BUTTON_PIN) == LOW) { delay(10); }\<close> over the
  readings \<open>bs\<close>: \<open>Some\<close> of the clock when a reading is \<open>HIGH\<close>, \<open>None\<close>
  when every reading is \<open>LOW\<close> (the loop has not returned).\<close>

fun wait_release :: "bool list \<Rightarrow> u32 \<Rightarrow> u32 option" where
  "wait_release [] clk = None"
| "wait_release (b # bs) clk = (if b = LOW then wait_release bs (clk + 10) else Some clk)"

subsection \<open>The stage handlers\<close>

definition wait_button_step :: "string list \<Rightarrow> tick \<Rightarrow> u32 \<Rightarrow> bool \<Rightarrow> mstate \<Rightarrow> mstate option" where
  "wait_button_step lbl i clk pressed s =
     (let now = t_now i;
          s1 = (if now - lastBlinkMs s \<ge> 500
                then (emit M_IDLE s)\<lparr>lastBlinkMs := now, ledStatus := \<not> ledStatus s\<rparr> else s)
      in if pressed \<or> startRequested s1 then
           (case wait_release (t_release i) clk of
              None \<Rightarrow> None
            | Some clk1 \<Rightarrow>
                (let s2 = emit M_START (s1\<lparr>startRequested := False\<rparr>);
                     (es, clk2) = pulseReset clk1;
                     s3 = s2\<lparr>out := out s2 @ es,
                             precheckAllHighOk := False, precheckAllLowOk := False,
                             expectedIndex := 0, pinWasHigh := replicate (length lbl) False,
                             ledStatus := LOW,
                             beginAllHighPrinted := False, beginFailPrinted := False\<rparr>
                 in Some (toState STATE_WAIT_ALL_HIGH clk2 s3)))
         else Some s1)"

definition wait_all_high_step :: "string list \<Rightarrow> tick \<Rightarrow> u32 \<Rightarrow> mstate \<Rightarrow> mstate" where
  "wait_all_high_step lbl i clk s =
     (let now = t_now i; lv = t_pins i;
          s1 = (if \<not> beginAllHighPrinted s
                then (emit M_ALL_HIGH_BEGIN s)\<lparr>beginAllHighPrinted := True\<rparr> else s)
      in if all_at HIGH lv then
           toState STATE_WAIT_ALL_LOW clk
             ((emit M_ALL_HIGH_OK s1)\<lparr>precheckAllHighOk := True, beginAllLowPrinted := False\<rparr>)
         else if now - stateStartMs s1 > PRECHECK_TIMEOUT_MS then
           toState STATE_WAIT_ALL_LOW clk
             ((emit (M_ALL_HIGH_ERROR (printDynamicPinsByLevel lbl lv LOW)) s1)
                \<lparr>beginAllLowPrinted := False\<rparr>)
         else s1)"

definition wait_all_low_step :: "string list \<Rightarrow> tick \<Rightarrow> u32 \<Rightarrow> mstate \<Rightarrow> mstate" where
  "wait_all_low_step lbl i clk s =
     (let now = t_now i; lv = t_pins i;
          s1 = (if \<not> beginAllLowPrinted s
                then (emit M_ALL_LOW_BEGIN s)\<lparr>beginAllLowPrinted := True\<rparr> else s)
      in if all_at LOW lv then
           toState STATE_SEQUENCE clk
             ((emit M_ALL_LOW_OK s1)\<lparr>precheckAllLowOk := True, beginSequencePrinted := False\<rparr>)
         else if now - stateStartMs s1 > LOW_STAGE_TIMEOUT_MS then
           toState STATE_SEQUENCE clk
             ((emit (M_ALL_LOW_ERROR (printDynamicPinsByLevel lbl lv HIGH)) s1)
                \<lparr>beginSequencePrinted := False\<rparr>)
         else s1)"

text \<open>The Sequence stage leaves the \<open>switch\<close> early (\<open>break\<close>) on a fault and
  on success; otherwise it falls through to the timeout check.\<close>

datatype 'a flow = Break 'a | Next 'a

text \<open>\<open>for (i...) if (digitalRead(TEST_PINS[i]) == LOW) pinWasHigh[i] = false;\<close>\<close>

function clear_low_loop :: "bool list \<Rightarrow> nat \<Rightarrow> bool list \<Rightarrow> bool list" where
  "clear_low_loop lv i w =
     (if i < length lv then
        clear_low_loop lv (Suc i) (if lv ! i = LOW then w[i := False] else w)
      else w)"
  by pat_completeness auto
termination
  by (relation "measure (\<lambda>(lv, i, w). length lv - i)") auto

declare clear_low_loop.simps [simp del]

definition seq_edge :: "string list \<Rightarrow> bool list \<Rightarrow> u32 \<Rightarrow> mstate \<Rightarrow> mstate flow" where
  "seq_edge lbl lv clk s =
     (let (highCount, highIdx) = count_high lv in
      if highCount > 1 then
        Break (toState STATE_FAIL clk (emit (M_SEQ_FAIL_PINS (printDynamicPinsByLevel lbl lv HIGH)) s))
      else if highCount = 1 then
        (if \<not> pinWasHigh s ! nat highIdx then
           (let s1 = emit (M_SEQ_OK (lbl ! nat highIdx))
                       (s\<lparr>pinWasHigh := (pinWasHigh s)[nat highIdx := True]\<rparr>)
            in if highIdx = expectedIndex s1 then
                 (let s2 = s1\<lparr>expectedIndex := expectedIndex s1 + 1\<rparr>
                  in if expectedIndex s2 = int (length lbl) then
                       Break (toState STATE_SUCCESS clk ((emit M_SEQ_ALL_OK s2)\<lparr>ledStatus := HIGH\<rparr>))
                     else Next s2)
               else if highIdx > expectedIndex s1 then
                 Break (toState STATE_FAIL clk
                   (emit (M_SEQ_ORDER (lbl ! nat (expectedIndex s1)) (lbl ! nat highIdx)) s1))
               else
                 Break (toState STATE_FAIL clk (emit (M_SEQ_REPEATED (lbl ! nat highIdx)) s1)))
         else Next s)
      else Next (s\<lparr>pinWasHigh := clear_low_loop lv 0 (pinWasHigh s)\<rparr>))"

text \<open>The timeout check at the end of the Sequence case, reached only when
  the edge handling did not \<open>break\<close>.\<close>

definition seq_timeout :: "string list \<Rightarrow> u32 \<Rightarrow> u32 \<Rightarrow> mstate \<Rightarrow> mstate" where
  "seq_timeout lbl now clk s =
     (if now - stateStartMs s > SEQUENCE_TIMEOUT_MS then
        toState STATE_FAIL clk
          (emit (M_SEQ_TIMEOUT (if expectedIndex s < int (length lbl)
                                then lbl ! nat (expectedIndex s) else ''end'')) s)
      else s)"

definition sequence_step :: "string list \<Rightarrow> tick \<Rightarrow> u32 \<Rightarrow> mstate \<Rightarrow> mstate" where
  "sequence_step lbl i clk s =
     (let s1 = (if \<not> beginSequencePrinted s
                then (emit M_SEQ_BEGIN s)\<lparr>beginSequencePrinted := True\<rparr> else s)
      in case seq_edge lbl (t_pins i) clk s1 of
           Break s2 \<Rightarrow> s2
         | Next s2 \<Rightarrow> seq_timeout lbl (t_now i) clk s2)"

definition success_step :: "u32 \<Rightarrow> mstate \<Rightarrow> mstate" where
  "success_step clk s = toState STATE_WAIT_BUTTON clk (emit M_SUCCESS s)"

definition fail_step :: "string list \<Rightarrow> tick \<Rightarrow> u32 \<Rightarrow> bool \<Rightarrow> mstate \<Rightarrow> mstate option" where
  "fail_step lbl i clk pressed s =
     (let now = t_now i;
          s1 = (if \<not> beginFailPrinted s then (emit M_FAIL s)\<lparr>beginFailPrinted := True\<rparr> else s);
          s2 = (if now - lastBlinkMs s1 \<ge> 150
                then s1\<lparr>lastBlinkMs := now, ledStatus := \<not> ledStatus s1\<rparr> else s1)
      in if pressed \<or> startRequested s2 then
           (case (if pressed then wait_release (t_release i) clk else Some clk) of
              None \<Rightarrow> None
            | Some clk1 \<Rightarrow>
                (let s3 = emit M_START (s2\<lparr>startRequested := False\<rparr>);
                     (es, clk2) = pulseReset clk1;
                     s4 = s3\<lparr>out := out s3 @ es,
                             expectedIndex := 0, pinWasHigh := replicate (length lbl) False,
                             ledStatus := LOW,
                             precheckAllHighOk := False, precheckAllLowOk := False,
                             beginAllHighPrinted := False, beginAllLowPrinted := False,
                             beginSequencePrinted := False, beginFailPrinted := False\<rparr>
                 in Some (toState STATE_WAIT_ALL_HIGH clk2 s4)))
         else Some s2)"

subsection \<open>loop()\<close>

definition master_loop :: "string list \<Rightarrow> tick \<Rightarrow> mstate \<Rightarrow> mstate option" where
  "master_loop lbl i s =
     (let now = t_now i;
          (s1, clk) = serial_poll (t_cmd i) now s;
          (s2, pressed) = debounce now (t_btn i) s1
      in case state s2 of
           STATE_WAIT_BUTTON \<Rightarrow> wait_button_step lbl i clk pressed s2
         | STATE_WAIT_ALL_HIGH \<Rightarrow> Some (wait_all_high_step lbl i clk s2)
         | STATE_WAIT_ALL_LOW \<Rightarrow> Some (wait_all_low_step lbl i clk s2)
         | STATE_SEQUENCE \<Rightarrow> Some (sequence_step lbl i clk s2)
         | STATE_SUCCESS \<Rightarrow> Some (success_step clk s2)
         | STATE_FAIL \<Rightarrow> fail_step lbl i clk pressed s2)"

text \<open>Successive iterations of \<open>loop()\<close>; \<open>None\<close> if one of them blocks.\<close>

fun run :: "string list \<Rightarrow> tick list \<Rightarrow> mstate \<Rightarrow> mstate option" where
  "run lbl [] s = Some s"
| "run lbl (i # is) s = (case master_loop lbl i s of None \<Rightarrow> None | Some s' \<Rightarrow> run lbl is s')"

text \<open>The states the firmware can be in: after \<open>setup()\<close>, and after any
  iteration of \<open>loop()\<close> that reads one level per roster line.\<close>

inductive reachable :: "string list \<Rightarrow> mstate \<Rightarrow> bool" for lbl where
  init: "reachable lbl (master_setup lbl t)"
| step: "reachable lbl s \<Longrightarrow> length (t_pins i) = length lbl \<Longrightarrow>
         master_loop lbl i s = Some s' \<Longrightarrow> reachable lbl s'"

end
