(* ===== verification/Invariants.thy ===== *)
theory Invariants
  imports Sequencer
begin

text \<open>
  Facts about one iteration of the Master's \<open>loop()\<close> that the
  properties share: what the high-line count says when it is one, the effect
  of the clearing loop, the frame of the command poll and of the debounce
  step (they touch only the start latch, the log and the button fields), and
  the run-context invariant \<open>seq_inv\<close> with its preservation by every
  stage handler, by \<open>master_loop\<close> and over the reachable states.
  \<open>seq_inv\<close> says that \<open>pinWasHigh\<close> has one flag per roster line,
  that the cursor \<open>expectedIndex\<close> stays in \<open>0..N\<close>, that the two
  prechecks run on a freshly reset run context, that during the Sequence
  stage and in Fail the cursor is a valid roster index and every line marked
  as seen high lies before it, and that Success is entered with the cursor at
  \<open>N\<close>.
\<close>

subsection \<open>The run-context invariant\<close>

definition seq_inv :: "string list \<Rightarrow> mstate \<Rightarrow> bool" where
  "seq_inv lbl s \<longleftrightarrow>
     length (pinWasHigh s) = length lbl \<and> 0 \<le> expectedIndex s \<and>
     expectedIndex s \<le> int (length lbl) \<and>
     (state s = STATE_WAIT_ALL_HIGH \<or> state s = STATE_WAIT_ALL_LOW \<longrightarrow>
        expectedIndex s = 0 \<and> pinWasHigh s = replicate (length lbl) False \<and> \<not> beginFailPrinted s) \<and>
     (state s = STATE_SEQUENCE \<longrightarrow>
        expectedIndex s < int (length lbl) \<and> \<not> beginFailPrinted s \<and>
        (\<forall>k < length lbl. pinWasHigh s ! k \<longrightarrow> int k < expectedIndex s)) \<and>
     (state s = STATE_FAIL \<longrightarrow> expectedIndex s < int (length lbl)) \<and>
     (state s = STATE_SUCCESS \<longrightarrow> expectedIndex s = int (length lbl))"

subsection \<open>One iteration seen from outside\<close>

definition cmd_start :: "string option \<Rightarrow> bool" where
  "cmd_start c \<longleftrightarrow> (case c of Some l \<Rightarrow> classify_cmd l = StartRequested | None \<Rightarrow> False)"

definition cmd_delay :: "string option \<Rightarrow> u32" where
  "cmd_delay c = (case c of Some l \<Rightarrow> if classify_cmd l = FlashRequested then 400 else 0 | None \<Rightarrow> 0)"

definition poll_frame :: "mstate \<Rightarrow> mstate \<Rightarrow> bool" where
  "poll_frame s s2 \<longleftrightarrow>
     state s2 = state s \<and> stateStartMs s2 = stateStartMs s \<and> lastBlinkMs s2 = lastBlinkMs s \<and>
     expectedIndex s2 = expectedIndex s \<and> pinWasHigh s2 = pinWasHigh s \<and>
     beginAllHighPrinted s2 = beginAllHighPrinted s \<and> beginAllLowPrinted s2 = beginAllLowPrinted s \<and>
     beginSequencePrinted s2 = beginSequencePrinted s \<and> beginFailPrinted s2 = beginFailPrinted s \<and>
     ledStatus s2 = ledStatus s \<and>
     (\<exists>es. out s2 = out s @ es \<and> set (tx_markers es) \<subseteq> {M_START_CMD, M_FLASH_CMD, M_SENT_RESET})"

definition activation :: "tick \<Rightarrow> mstate \<Rightarrow> bool" where
  "activation i s \<longleftrightarrow> snd (debounce (t_now i) (t_btn i) s) \<or> startRequested s \<or> cmd_start (t_cmd i)"

text \<open>What an activation leaves behind, from Wait-for-button and from Fail
  alike: the precheck stage with a freshly reset run context.\<close>

definition fresh_run :: "string list \<Rightarrow> mstate \<Rightarrow> bool" where
  "fresh_run lbl s \<longleftrightarrow>
     state s = STATE_WAIT_ALL_HIGH \<and> expectedIndex s = 0 \<and>
     pinWasHigh s = replicate (length lbl) False \<and> \<not> startRequested s \<and>
     \<not> precheckAllHighOk s \<and> \<not> precheckAllLowOk s \<and>
     \<not> beginAllHighPrinted s \<and> \<not> beginFailPrinted s"

subsection \<open>Helper facts\<close>


lemma count_high_nonneg: "0 \<le> fst (count_high lv)"
  by (simp add: count_high_eq)

lemma count_high_one:
  assumes "count_high lv = (1, h)"
  obtains k where "high_idxs lv = [k]" "h = int k"
proof -
  from assms have len: "length (high_idxs lv) = 1"
    and h: "h = int (last (high_idxs lv))"
    by (auto simp: count_high_eq split: if_splits)
  from len obtain k where "high_idxs lv = [k]" by (auto simp: length_Suc_conv)
  with h that show ?thesis by simp
qed

lemma clear_low_loop_length [simp]: "length (clear_low_loop lv i w) = length w"
  by (induction lv i w rule: clear_low_loop.induct) (simp add: clear_low_loop.simps)

lemma clear_low_loop_nth:
  "j < length w \<Longrightarrow>
   clear_low_loop lv i w ! j = (if i \<le> j \<and> j < length lv \<and> \<not> lv ! j then False else w ! j)"
proof (induction lv i w rule: clear_low_loop.induct)
  case (1 lv i w)
  show ?case
  proof (cases "i < length lv")
    case False
    then show ?thesis by (auto simp: clear_low_loop.simps [of lv i w])
  next
    case True
    with "1.IH" "1.prems" show ?thesis
      by (cases "j = i") (auto simp: clear_low_loop.simps [of lv i w] nth_list_update)
  qed
qed

lemma serial_poll_shape:
  "\<exists>req es. fst (serial_poll c t s) = s\<lparr>startRequested := req, out := out s @ es\<rparr> \<and>
     set (tx_markers es) \<subseteq> {M_START_CMD, M_FLASH_CMD, M_SENT_RESET}"
proof (cases c)
  case None
  then show ?thesis by (intro exI [of _ "startRequested s"] exI [of _ "[]"]) (simp add: serial_poll_def)
next
  case (Some line)
  show ?thesis
  proof (cases "classify_cmd line")
    case StartRequested
    with Some show ?thesis
      by (intro exI [of _ True] exI [of _ "[Tx M_START_CMD]"]) (simp add: serial_poll_def emit_def)
  next
    case FlashRequested
    with Some show ?thesis
      by (intro exI [of _ "startRequested s"] exI [of _ "fst (enterFlashMode t)"])
        (auto simp: serial_poll_def enterFlashMode_def pulseReset_def)
  next
    case Ignored
    with Some show ?thesis
      by (intro exI [of _ "startRequested s"] exI [of _ "[]"]) (simp add: serial_poll_def)
  qed
qed

lemma debounce_shape:
  "\<exists>e b. fst (debounce now btn s) = s\<lparr>lastButtonEdgeMs := e, lastButtonState := b\<rparr>"
proof (cases "btn \<noteq> lastButtonState s")
  case True
  then show ?thesis by (auto simp: debounce_def)
next
  case False
  then have "fst (debounce now btn s) =
      s\<lparr>lastButtonEdgeMs := lastButtonEdgeMs s, lastButtonState := lastButtonState s\<rparr>"
    by (simp add: debounce_def)
  then show ?thesis by blast
qed

subsection \<open>Preservation\<close>

lemma seq_edge_inv:
  assumes inv: "seq_inv lbl s" and st: "state s = STATE_SEQUENCE"
    and len: "length lv = length lbl"
  shows "case seq_edge lbl lv clk s of
           Break s' \<Rightarrow> seq_inv lbl s' \<and> (state s' = STATE_FAIL \<or> state s' = STATE_SUCCESS)
         | Next s' \<Rightarrow> seq_inv lbl s' \<and> state s' = STATE_SEQUENCE"
proof -
  obtain c h where ch: "count_high lv = (c, h)" by (cases "count_high lv")
  have "0 \<le> c" using count_high_nonneg [of lv] ch by simp
  then consider (many) "c > 1" | (one) "c = 1" | (none) "c = 0" by linarith
  then show ?thesis
  proof cases
    case many
    with inv st show ?thesis by (simp add: seq_edge_def ch seq_inv_def toState_def emit_def)
  next
    case one
    with ch obtain k where hk: "high_idxs lv = [k]" and h: "h = int k"
      by (auto elim: count_high_one)
    from high_idxs_one(1) [OF hk] len have k: "k < length lbl" by simp
    show ?thesis
    proof (cases "pinWasHigh s ! k")
      case True
      with inv st one ch h show ?thesis by (simp add: seq_edge_def)
    next
      case False
      consider (eq) "int k = expectedIndex s" | (gt) "int k > expectedIndex s"
        | (lt) "int k < expectedIndex s" by linarith
      then show ?thesis
      proof cases
        case eq
        with inv st one ch h k False show ?thesis
          by (auto simp: seq_edge_def seq_inv_def emit_def toState_def nth_list_update Let_def)
      next
        case gt
        with inv st one ch h k False show ?thesis
          by (auto simp: seq_edge_def seq_inv_def emit_def toState_def)
      next
        case lt
        with inv st one ch h k False show ?thesis
          by (auto simp: seq_edge_def seq_inv_def emit_def toState_def)
      qed
    qed
  next
    case none
    with inv st show ?thesis
      by (auto simp: seq_edge_def ch seq_inv_def clear_low_loop_nth)
  qed
qed

lemma seq_inv_pre_dispatch:
  "seq_inv lbl (fst (debounce now b (fst (serial_poll c t s)))) = seq_inv lbl s"
proof -
  obtain req es where p: "fst (serial_poll c t s) = s\<lparr>startRequested := req, out := out s @ es\<rparr>"
    using serial_poll_shape by blast
  obtain e b' where d: "fst (debounce now b (fst (serial_poll c t s))) =
      (fst (serial_poll c t s))\<lparr>lastButtonEdgeMs := e, lastButtonState := b'\<rparr>"
    using debounce_shape by blast
  show ?thesis by (simp only: d) (simp add: p seq_inv_def)
qed

lemma wait_button_step_inv:
  "seq_inv lbl s \<Longrightarrow> state s = STATE_WAIT_BUTTON \<Longrightarrow>
   wait_button_step lbl i clk pressed s = Some s' \<Longrightarrow> seq_inv lbl s'"
  by (auto simp: wait_button_step_def seq_inv_def emit_def toState_def pulseReset_def Let_def
           split: if_splits option.splits)
lemma wait_all_high_step_inv:
  "seq_inv lbl s \<Longrightarrow> state s = STATE_WAIT_ALL_HIGH \<Longrightarrow> seq_inv lbl (wait_all_high_step lbl i clk s)"
  by (simp add: wait_all_high_step_def seq_inv_def emit_def toState_def Let_def)

lemma wait_all_low_step_inv:
  "seq_inv lbl s \<Longrightarrow> state s = STATE_WAIT_ALL_LOW \<Longrightarrow> lbl \<noteq> [] \<Longrightarrow>
   seq_inv lbl (wait_all_low_step lbl i clk s)"
  by (auto simp: wait_all_low_step_def seq_inv_def emit_def toState_def Let_def)


lemma seq_timeout_inv:
  "seq_inv lbl s \<Longrightarrow> state s = STATE_SEQUENCE \<Longrightarrow> seq_inv lbl (seq_timeout lbl now clk s)"
  by (simp add: seq_timeout_def seq_inv_def toState_def emit_def)

lemma sequence_step_inv:
  assumes inv: "seq_inv lbl s" and st: "state s = STATE_SEQUENCE"
    and len: "length (t_pins i) = length lbl"
  shows "seq_inv lbl (sequence_step lbl i clk s)"
proof -
  define s1 where "s1 = (if \<not> beginSequencePrinted s
             then (emit M_SEQ_BEGIN s)\<lparr>beginSequencePrinted := True\<rparr> else s)"
  have "seq_inv lbl s1" "state s1 = STATE_SEQUENCE"
    using inv st by (simp_all add: s1_def seq_inv_def emit_def)
  note e = seq_edge_inv [OF this len, of clk]
  show ?thesis
  proof (cases "seq_edge lbl (t_pins i) clk s1")
    case (Break s2)
    with e show ?thesis by (simp add: sequence_step_def s1_def [symmetric])
  next
    case (Next s2)
    with e show ?thesis by (simp add: sequence_step_def s1_def [symmetric] seq_timeout_inv)
  qed
qed
lemma success_step_inv:
  "seq_inv lbl s \<Longrightarrow> state s = STATE_SUCCESS \<Longrightarrow> seq_inv lbl (success_step clk s)"
  by (simp add: success_step_def seq_inv_def emit_def toState_def)


lemma fail_step_inv:
  "seq_inv lbl s \<Longrightarrow> state s = STATE_FAIL \<Longrightarrow>
   fail_step lbl i clk pressed s = Some s' \<Longrightarrow> seq_inv lbl s'"
  by (auto simp: fail_step_def seq_inv_def emit_def toState_def pulseReset_def Let_def
           split: if_splits option.splits)
lemma master_loop_inv:
  assumes inv: "seq_inv lbl s" and ne: "lbl \<noteq> []" and len: "length (t_pins i) = length lbl"
    and step: "master_loop lbl i s = Some s'"
  shows "seq_inv lbl s'"
proof -
  obtain s1 clk where p: "serial_poll (t_cmd i) (t_now i) s = (s1, clk)"
    by (cases "serial_poll (t_cmd i) (t_now i) s")
  obtain s2 pressed where d: "debounce (t_now i) (t_btn i) s1 = (s2, pressed)"
    by (cases "debounce (t_now i) (t_btn i) s1")
  have inv2: "seq_inv lbl s2"
    using seq_inv_pre_dispatch [of lbl "t_now i" "t_btn i" "t_cmd i" "t_now i" s] inv p d by simp
  show ?thesis
  proof (cases "state s2")
    case STATE_WAIT_BUTTON
    with step p d inv2 show ?thesis by (simp add: master_loop_def wait_button_step_inv)
  next
    case STATE_WAIT_ALL_HIGH
    with step p d inv2 show ?thesis by (auto simp: master_loop_def wait_all_high_step_inv)
  next
    case STATE_WAIT_ALL_LOW
    with step p d inv2 ne show ?thesis by (auto simp: master_loop_def wait_all_low_step_inv)
  next
    case STATE_SEQUENCE
    with step p d inv2 len show ?thesis by (auto simp: master_loop_def sequence_step_inv)
  next
    case STATE_SUCCESS
    with step p d inv2 show ?thesis by (auto simp: master_loop_def success_step_inv)
  next
    case STATE_FAIL
    with step p d inv2 show ?thesis by (simp add: master_loop_def fail_step_inv)
  qed
qed

lemma master_setup_inv: "seq_inv lbl (master_setup lbl t)"
  by (simp add: master_setup_def seq_inv_def)

lemma reachable_seq_inv: "reachable lbl s \<Longrightarrow> lbl \<noteq> [] \<Longrightarrow> seq_inv lbl s"
proof (induction rule: reachable.induct)
  case (init t)
  show ?case by (rule master_setup_inv)
next
  case (step s i s')
  then show ?case by (blast intro: master_loop_inv)
qed

subsection \<open>The shape of one iteration\<close>

lemma debounce_eq:
  "debounce now b s =
     (s\<lparr>lastButtonEdgeMs := (if b \<noteq> lastButtonState s then now else lastButtonEdgeMs s),
        lastButtonState := b\<rparr>,
      b = LOW \<and> now - (if b \<noteq> lastButtonState s then now else lastButtonEdgeMs s) > DEBOUNCE_MS)"
  by (cases "b = lastButtonState s") (simp_all add: debounce_def)

lemma serial_poll_eq:
  obtains es where
    "serial_poll c t s =
       (s\<lparr>startRequested := startRequested s \<or> cmd_start c, out := out s @ es\<rparr>, t + cmd_delay c)"
    "set (tx_markers es) \<subseteq> {M_START_CMD, M_FLASH_CMD, M_SENT_RESET}"
    "c = None \<longrightarrow> es = []"
proof (cases c)
  case None
  then show ?thesis
    by (intro that [of "[]"]) (simp_all add: serial_poll_def cmd_start_def cmd_delay_def)
next
  case (Some l)
  show ?thesis
  proof (cases "classify_cmd l")
    case StartRequested
    with Some show ?thesis
      by (intro that [of "[Tx M_START_CMD]"])
        (simp_all add: serial_poll_def cmd_start_def cmd_delay_def emit_def)
  next
    case FlashRequested
    with Some show ?thesis
      by (intro that [of "fst (enterFlashMode t)"])
        (auto simp: serial_poll_def cmd_start_def cmd_delay_def enterFlashMode_def pulseReset_def)
  next
    case Ignored
    with Some show ?thesis
      by (intro that [of "[]"]) (simp_all add: serial_poll_def cmd_start_def cmd_delay_def)
  qed
qed

lemma master_loop_pre:
  obtains es where
    "master_loop lbl i s =
       (let e = (if t_btn i \<noteq> lastButtonState s then t_now i else lastButtonEdgeMs s);
            s2 = s\<lparr>startRequested := startRequested s \<or> cmd_start (t_cmd i), out := out s @ es,
                   lastButtonEdgeMs := e, lastButtonState := t_btn i\<rparr>;
            clk = t_now i + cmd_delay (t_cmd i);
            pressed = (t_btn i = LOW \<and> t_now i - e > DEBOUNCE_MS)
        in case state s of
             STATE_WAIT_BUTTON \<Rightarrow> wait_button_step lbl i clk pressed s2
           | STATE_WAIT_ALL_HIGH \<Rightarrow> Some (wait_all_high_step lbl i clk s2)
           | STATE_WAIT_ALL_LOW \<Rightarrow> Some (wait_all_low_step lbl i clk s2)
           | STATE_SEQUENCE \<Rightarrow> Some (sequence_step lbl i clk s2)
           | STATE_SUCCESS \<Rightarrow> Some (success_step clk s2)
           | STATE_FAIL \<Rightarrow> fail_step lbl i clk pressed s2)"
    "set (tx_markers es) \<subseteq> {M_START_CMD, M_FLASH_CMD, M_SENT_RESET}"
    "t_cmd i = None \<longrightarrow> es = []"
proof -
  obtain es where p: "serial_poll (t_cmd i) (t_now i) s =
       (s\<lparr>startRequested := startRequested s \<or> cmd_start (t_cmd i), out := out s @ es\<rparr>,
        t_now i + cmd_delay (t_cmd i))"
    and es: "set (tx_markers es) \<subseteq> {M_START_CMD, M_FLASH_CMD, M_SENT_RESET}"
            "t_cmd i = None \<longrightarrow> es = []"
    by (rule serial_poll_eq [where c = "t_cmd i" and t = "t_now i" and s = s])
  let ?e = "if t_btn i \<noteq> lastButtonState s then t_now i else lastButtonEdgeMs s"
  have d: "debounce (t_now i) (t_btn i)
             (s\<lparr>startRequested := startRequested s \<or> cmd_start (t_cmd i), out := out s @ es\<rparr>) =
           (s\<lparr>startRequested := startRequested s \<or> cmd_start (t_cmd i), out := out s @ es,
               lastButtonEdgeMs := ?e, lastButtonState := t_btn i\<rparr>,
            t_btn i = LOW \<and> t_now i - ?e > DEBOUNCE_MS)"
    by (simp add: debounce_eq)
  show ?thesis
    by (rule that [OF _ es]) (simp only: master_loop_def p d Let_def prod.case, simp)
qed

lemma master_loop_dispatch:
  obtains s2 clk pressed where
    "master_loop lbl i s =
       (case state s of
          STATE_WAIT_BUTTON \<Rightarrow> wait_button_step lbl i clk pressed s2
        | STATE_WAIT_ALL_HIGH \<Rightarrow> Some (wait_all_high_step lbl i clk s2)
        | STATE_WAIT_ALL_LOW \<Rightarrow> Some (wait_all_low_step lbl i clk s2)
        | STATE_SEQUENCE \<Rightarrow> Some (sequence_step lbl i clk s2)
        | STATE_SUCCESS \<Rightarrow> Some (success_step clk s2)
        | STATE_FAIL \<Rightarrow> fail_step lbl i clk pressed s2)"
    "poll_frame s s2" "t_cmd i = None \<longrightarrow> clk = t_now i"
proof -
  obtain es where m: "master_loop lbl i s =
       (let e = (if t_btn i \<noteq> lastButtonState s then t_now i else lastButtonEdgeMs s);
            s2 = s\<lparr>startRequested := startRequested s \<or> cmd_start (t_cmd i), out := out s @ es,
                   lastButtonEdgeMs := e, lastButtonState := t_btn i\<rparr>;
            clk = t_now i + cmd_delay (t_cmd i);
            pressed = (t_btn i = LOW \<and> t_now i - e > DEBOUNCE_MS)
        in case state s of
             STATE_WAIT_BUTTON \<Rightarrow> wait_button_step lbl i clk pressed s2
           | STATE_WAIT_ALL_HIGH \<Rightarrow> Some (wait_all_high_step lbl i clk s2)
           | STATE_WAIT_ALL_LOW \<Rightarrow> Some (wait_all_low_step lbl i clk s2)
           | STATE_SEQUENCE \<Rightarrow> Some (sequence_step lbl i clk s2)
           | STATE_SUCCESS \<Rightarrow> Some (success_step clk s2)
           | STATE_FAIL \<Rightarrow> fail_step lbl i clk pressed s2)"
    and es_m: "set (tx_markers es) \<subseteq> {M_START_CMD, M_FLASH_CMD, M_SENT_RESET}"
    by (rule master_loop_pre)
  define e where "e = (if t_btn i \<noteq> lastButtonState s then t_now i else lastButtonEdgeMs s)"
  define s2 where "s2 = s\<lparr>startRequested := startRequested s \<or> cmd_start (t_cmd i), out := out s @ es,
                   lastButtonEdgeMs := e, lastButtonState := t_btn i\<rparr>"
  define clk where "clk = t_now i + cmd_delay (t_cmd i)"
  define pressed where "pressed = (t_btn i = LOW \<and> t_now i - e > DEBOUNCE_MS)"
  have "master_loop lbl i s =
       (case state s of
          STATE_WAIT_BUTTON \<Rightarrow> wait_button_step lbl i clk pressed s2
        | STATE_WAIT_ALL_HIGH \<Rightarrow> Some (wait_all_high_step lbl i clk s2)
        | STATE_WAIT_ALL_LOW \<Rightarrow> Some (wait_all_low_step lbl i clk s2)
        | STATE_SEQUENCE \<Rightarrow> Some (sequence_step lbl i clk s2)
        | STATE_SUCCESS \<Rightarrow> Some (success_step clk s2)
        | STATE_FAIL \<Rightarrow> fail_step lbl i clk pressed s2)"
    by (simp only: m Let_def s2_def e_def clk_def pressed_def)
  moreover have "poll_frame s s2" using es_m by (auto simp: poll_frame_def s2_def)
  moreover have "t_cmd i = None \<longrightarrow> clk = t_now i"
    by (simp add: cmd_delay_def clk_def)
  ultimately show ?thesis by (rule that)
qed

lemma out_extend:
  "\<exists>es. out s2 = out s @ es \<Longrightarrow> \<exists>es. out s' = out s2 @ es @ tl' \<Longrightarrow> \<exists>es. out s' = out s @ es @ tl'"
  by auto

lemma master_loop_act:
  obtains s2 clk where
    "master_loop lbl i s =
       (case state s of
          STATE_WAIT_BUTTON \<Rightarrow> wait_button_step lbl i clk (snd (debounce (t_now i) (t_btn i) s)) s2
        | STATE_WAIT_ALL_HIGH \<Rightarrow> Some (wait_all_high_step lbl i clk s2)
        | STATE_WAIT_ALL_LOW \<Rightarrow> Some (wait_all_low_step lbl i clk s2)
        | STATE_SEQUENCE \<Rightarrow> Some (sequence_step lbl i clk s2)
        | STATE_SUCCESS \<Rightarrow> Some (success_step clk s2)
        | STATE_FAIL \<Rightarrow> fail_step lbl i clk (snd (debounce (t_now i) (t_btn i) s)) s2)"
    "poll_frame s s2" "startRequested s2 = (startRequested s \<or> cmd_start (t_cmd i))"
proof -
  obtain es where m: "master_loop lbl i s =
       (let e = (if t_btn i \<noteq> lastButtonState s then t_now i else lastButtonEdgeMs s);
            s2 = s\<lparr>startRequested := startRequested s \<or> cmd_start (t_cmd i), out := out s @ es,
                   lastButtonEdgeMs := e, lastButtonState := t_btn i\<rparr>;
            clk = t_now i + cmd_delay (t_cmd i);
            pressed = (t_btn i = LOW \<and> t_now i - e > DEBOUNCE_MS)
        in case state s of
             STATE_WAIT_BUTTON \<Rightarrow> wait_button_step lbl i clk pressed s2
           | STATE_WAIT_ALL_HIGH \<Rightarrow> Some (wait_all_high_step lbl i clk s2)
           | STATE_WAIT_ALL_LOW \<Rightarrow> Some (wait_all_low_step lbl i clk s2)
           | STATE_SEQUENCE \<Rightarrow> Some (sequence_step lbl i clk s2)
           | STATE_SUCCESS \<Rightarrow> Some (success_step clk s2)
           | STATE_FAIL \<Rightarrow> fail_step lbl i clk pressed s2)"
    and es_m: "set (tx_markers es) \<subseteq> {M_START_CMD, M_FLASH_CMD, M_SENT_RESET}"
    by (rule master_loop_pre)
  define e where "e = (if t_btn i \<noteq> lastButtonState s then t_now i else lastButtonEdgeMs s)"
  define s2 where "s2 = s\<lparr>startRequested := startRequested s \<or> cmd_start (t_cmd i), out := out s @ es,
                   lastButtonEdgeMs := e, lastButtonState := t_btn i\<rparr>"
  define clk where "clk = t_now i + cmd_delay (t_cmd i)"
  have p: "snd (debounce (t_now i) (t_btn i) s) = (t_btn i = LOW \<and> t_now i - e > DEBOUNCE_MS)"
    by (simp add: debounce_eq e_def)
  have "master_loop lbl i s =
       (case state s of
          STATE_WAIT_BUTTON \<Rightarrow> wait_button_step lbl i clk (snd (debounce (t_now i) (t_btn i) s)) s2
        | STATE_WAIT_ALL_HIGH \<Rightarrow> Some (wait_all_high_step lbl i clk s2)
        | STATE_WAIT_ALL_LOW \<Rightarrow> Some (wait_all_low_step lbl i clk s2)
        | STATE_SEQUENCE \<Rightarrow> Some (sequence_step lbl i clk s2)
        | STATE_SUCCESS \<Rightarrow> Some (success_step clk s2)
        | STATE_FAIL \<Rightarrow> fail_step lbl i clk (snd (debounce (t_now i) (t_btn i) s)) s2)"
    by (simp only: m p Let_def s2_def e_def clk_def)
  moreover have "poll_frame s s2" using es_m by (auto simp: poll_frame_def s2_def)
  moreover have "startRequested s2 = (startRequested s \<or> cmd_start (t_cmd i))"
    by (simp add: s2_def)
  ultimately show ?thesis by (rule that)
qed

lemma count_high_single:
  "k < n \<Longrightarrow> count_high ((replicate n LOW)[k := HIGH]) = (1, int k)"
  by (simp add: count_high_eq high_idxs_single)

lemma run_reachable:
  "reachable lbl s \<Longrightarrow> (\<forall>i \<in> set ts. length (t_pins i) = length lbl) \<Longrightarrow>
   run lbl ts s = Some s' \<Longrightarrow> reachable lbl s'"
proof (induction ts arbitrary: s)
  case Nil
  then show ?case by simp
next
  case (Cons i ts)
  then obtain s1 where "master_loop lbl i s = Some s1" "run lbl ts s1 = Some s'"
    by (auto split: option.splits)
  with Cons show ?case by (auto intro: reachable.step)
qed

end
