(* ===== verification/Scenarios.thy ===== *)
theory Scenarios
  imports Invariants
begin

text \<open>
  Concrete inputs for the Master, used to show that the hypotheses of the
  properties can hold together.  \<open>quiet_tick t lv\<close> is an iteration at
  \<open>millis() = t\<close> with no serial command, the button released and the roster
  lines at \<open>lv\<close>; \<open>only_high n k\<close> is the snapshot in which line \<open>k\<close> of
  \<open>n\<close> alone is high, as during the Target's pulse on that line.
  \<open>demo_ticks\<close> is a host \<open>START\<close> followed by the first part of a clean
  test on the 19-line roster: all high, all low, then the pulses of lines 0,
  1 and 2, each followed by all low.
\<close>

definition quiet_tick :: "u32 \<Rightarrow> bool list \<Rightarrow> tick" where
  "quiet_tick t lv = \<lparr>t_now = t, t_cmd = None, t_btn = HIGH, t_release = [HIGH], t_pins = lv\<rparr>"

definition only_high :: "nat \<Rightarrow> nat \<Rightarrow> bool list" where
  "only_high n k = (replicate n LOW)[k := HIGH]"

definition demo_ticks :: "tick list" where
  "demo_ticks =
     [\<lparr>t_now = 10, t_cmd = Some ''START'', t_btn = HIGH, t_release = [HIGH],
       t_pins = replicate 19 LOW\<rparr>,
      quiet_tick 200 (replicate 19 HIGH), quiet_tick 300 (replicate 19 LOW),
      quiet_tick 400 (only_high 19 0), quiet_tick 500 (replicate 19 LOW),
      quiet_tick 600 (only_high 19 1), quiet_tick 700 (replicate 19 LOW),
      quiet_tick 800 (only_high 19 2), quiet_tick 900 (replicate 19 LOW)]"

lemma demo_run:
  "\<exists>s. run TEST_LABELS demo_ticks (master_setup TEST_LABELS 0) = Some s \<and>
       reachable TEST_LABELS s \<and> state s = STATE_SEQUENCE \<and> expectedIndex s = 3 \<and>
       stateStartMs s = 300 \<and> pinWasHigh s = replicate 19 False"
proof -
  have "map_option (\<lambda>s. (state s, expectedIndex s, stateStartMs s, pinWasHigh s))
          (run TEST_LABELS demo_ticks (master_setup TEST_LABELS 0)) =
        Some (STATE_SEQUENCE, 3, 300, replicate 19 False)"
    by code_simp
  then obtain s where r: "run TEST_LABELS demo_ticks (master_setup TEST_LABELS 0) = Some s"
    and f: "state s = STATE_SEQUENCE" "expectedIndex s = 3" "stateStartMs s = 300"
           "pinWasHigh s = replicate 19 False"
    by auto
  have "\<forall>i \<in> set demo_ticks. length (t_pins i) = length TEST_LABELS"
    by code_simp
  with r have "reachable TEST_LABELS s"
    by (blast intro: run_reachable reachable.init)
  with r f show ?thesis by blast
qed

end
