(* ===== verification/Stages.thy ===== *)
theory Stages
  imports Scenarios
begin

text \<open>
  The behaviour of one iteration of \<open>loop()\<close> in each stage of the Test
  Sequencer (\<open>main.cpp\<close> lines 289--464): first at the level of the stage
  handlers, then for the whole iteration \<open>master_loop\<close>, whatever serial
  command and button level the iteration also sees.  Each property is
  followed by its instance on the 19-line roster.
\<close>

subsection \<open>Stage handlers\<close>

lemma sequence_step_many:
  assumes "2 \<le> length (high_idxs (t_pins i))"
  shows "state (sequence_step lbl i clk s) = STATE_FAIL \<and>
         (\<exists>es. out (sequence_step lbl i clk s) =
            out s @ es @ [Tx (M_SEQ_FAIL_PINS (printDynamicPinsByLevel lbl (t_pins i) HIGH))])"
  using assms
  by (auto simp: sequence_step_def seq_edge_def count_high_eq toState_def emit_def Let_def)

lemma sequence_step_order:
  assumes pins: "t_pins i = (replicate n LOW)[k := HIGH]" "k < n"
    and new: "\<not> pinWasHigh s ! k" and gt: "expectedIndex s < int k"
  shows "state (sequence_step lbl i clk s) = STATE_FAIL \<and>
         (\<exists>es. out (sequence_step lbl i clk s) = out s @ es @
            [Tx (M_SEQ_OK (lbl ! k)), Tx (M_SEQ_ORDER (lbl ! nat (expectedIndex s)) (lbl ! k))])"
  using assms
  by (auto simp: sequence_step_def seq_edge_def count_high_single toState_def emit_def Let_def)

lemma sequence_step_timeout:
  assumes pins: "t_pins i = replicate n LOW"
    and late: "t_now i - stateStartMs s > SEQUENCE_TIMEOUT_MS"
    and e: "expectedIndex s < int (length lbl)"
  shows "state (sequence_step lbl i clk s) = STATE_FAIL \<and>
         (\<exists>es. out (sequence_step lbl i clk s) = out s @ es @
            [Tx (M_SEQ_TIMEOUT (lbl ! nat (expectedIndex s)))])"
  using assms
  by (auto simp: sequence_step_def seq_edge_def seq_timeout_def count_high_eq toState_def
                 emit_def Let_def)

lemma wait_all_high_step_timeout:
  assumes "\<not> all_at HIGH (t_pins i)" "t_now i - stateStartMs s > PRECHECK_TIMEOUT_MS"
  shows "state (wait_all_high_step lbl i clk s) = STATE_WAIT_ALL_LOW \<and>
         (\<exists>es. out (wait_all_high_step lbl i clk s) = out s @ es @
            [Tx (M_ALL_HIGH_ERROR (printDynamicPinsByLevel lbl (t_pins i) LOW))])"
  using assms by (auto simp: wait_all_high_step_def toState_def emit_def Let_def)

lemma fail_step_cases:
  assumes st: "state s = STATE_FAIL" and r: "fail_step lbl i clk pressed s = Some s'"
  shows "if pressed \<or> startRequested s then fresh_run lbl s' \<and> \<not> beginAllLowPrinted s' \<and>
           \<not> beginSequencePrinted s' \<and>
           (\<exists>es t. out s' = out s @ es @
              [Tx M_START, Tx M_SENT_RESET, Reset_write LOW t, Reset_write HIGH (t + 100)])
         else state s' = STATE_FAIL"
proof (cases "pressed \<or> startRequested s")
  case False
  with st r show ?thesis by (auto simp: fail_step_def emit_def Let_def split: if_splits)
next
  case True
  with st r show ?thesis
    by (auto simp: fail_step_def fresh_run_def toState_def emit_def pulseReset_def Let_def
             split: option.splits if_split_asm)
qed

lemma wait_button_step_cases:
  assumes st: "state s = STATE_WAIT_BUTTON" and r: "wait_button_step lbl i clk pressed s = Some s'"
  shows "if pressed \<or> startRequested s then fresh_run lbl s' \<and>
           (\<exists>es t. out s' = out s @ es @
              [Tx M_START, Tx M_SENT_RESET, Reset_write LOW t, Reset_write HIGH (t + 100)])
         else state s' = STATE_WAIT_BUTTON"
proof (cases "pressed \<or> startRequested s")
  case False
  with st r show ?thesis by (auto simp: wait_button_step_def emit_def Let_def split: if_splits)
next
  case True
  with st r show ?thesis
    by (auto simp: wait_button_step_def fresh_run_def toState_def emit_def pulseReset_def Let_def
             split: option.splits if_split_asm)
qed

lemma wait_all_high_step_stays:
  "startRequested (wait_all_high_step lbl i clk s) = startRequested s \<and>
   expectedIndex (wait_all_high_step lbl i clk s) = expectedIndex s"
  by (simp add: wait_all_high_step_def toState_def emit_def Let_def)

lemma wait_all_low_step_stays:
  "startRequested (wait_all_low_step lbl i clk s) = startRequested s \<and>
   expectedIndex (wait_all_low_step lbl i clk s) = expectedIndex s"
  by (simp add: wait_all_low_step_def toState_def emit_def Let_def)

lemma seq_edge_stays:
  "seq_edge lbl lv clk s \<in> {Break s', Next s'} \<Longrightarrow>
   startRequested s' = startRequested s \<and> expectedIndex s \<le> expectedIndex s'"
  by (auto simp: seq_edge_def toState_def emit_def Let_def split: prod.splits if_splits)

lemma sequence_step_stays:
  "startRequested (sequence_step lbl i clk s) = startRequested s \<and>
   expectedIndex s \<le> expectedIndex (sequence_step lbl i clk s)"
proof -
  define s1 where "s1 = (if \<not> beginSequencePrinted s
                then (emit M_SEQ_BEGIN s)\<lparr>beginSequencePrinted := True\<rparr> else s)"
  have s1: "startRequested s1 = startRequested s" "expectedIndex s1 = expectedIndex s"
    by (simp_all add: s1_def emit_def)
  have q: "sequence_step lbl i clk s =
             (case seq_edge lbl (t_pins i) clk s1 of Break s2 \<Rightarrow> s2
              | Next s2 \<Rightarrow> seq_timeout lbl (t_now i) clk s2)"
    by (simp add: sequence_step_def s1_def Let_def)
  show ?thesis
  proof (cases "seq_edge lbl (t_pins i) clk s1")
    case (Break s2)
    with seq_edge_stays [of lbl "t_pins i" clk s1 s2] s1 show ?thesis by (simp add: q)
  next
    case (Next s2)
    with seq_edge_stays [of lbl "t_pins i" clk s1 s2] s1 show ?thesis
      by (simp add: q seq_timeout_def toState_def emit_def)
  qed
qed

subsection \<open>One iteration of loop()\<close>

text \<open>C2: if two roster lines read high in the same iteration of the Sequence
  stage, that iteration enters Fail, and the last line it sends is the
  \<open>FAIL_PINS\<close> error listing every high line, in roster order, joined by
  \<open>", "\<close>.\<close>

theorem two_high_fail:
  assumes st: "state s = STATE_SEQUENCE"
    and j: "j < length (t_pins i)" "t_pins i ! j" and k: "k < length (t_pins i)" "t_pins i ! k"
    and jk: "j \<noteq> k"
  shows "\<exists>s'. master_loop lbl i s = Some s' \<and> state s' = STATE_FAIL \<and>
           (\<exists>es. out s' = out s @ es @
                   [Tx (M_SEQ_FAIL_PINS (join '', '' (labels_at lbl (t_pins i) HIGH)))])"
proof -
  obtain s2 clk where m: "master_loop lbl i s = Some (sequence_step lbl i clk s2)"
    and f: "poll_frame s s2"
    using st by (cases rule: master_loop_dispatch [of lbl i s]) auto
  have "2 \<le> length (high_idxs (t_pins i))" using high_idxs_ge2 [OF j(1) k(1) jk j(2) k(2)] .
  from sequence_step_many [OF this, of lbl clk s2] f m show ?thesis
    by (auto simp: printDynamicPinsByLevel_eq poll_frame_def intro: out_extend)
qed

theorem two_high_fail_witness:
  "\<exists>s'. master_loop TEST_LABELS (quiet_tick 1000 ((replicate 19 LOW)[0 := HIGH, 1 := HIGH]))
          ((master_setup TEST_LABELS 0)\<lparr>state := STATE_SEQUENCE\<rparr>) = Some s' \<and>
        state s' = STATE_FAIL \<and>
        (\<exists>es. out s' = out ((master_setup TEST_LABELS 0)\<lparr>state := STATE_SEQUENCE\<rparr>) @ es @
           [Tx (M_SEQ_FAIL_PINS (join '', '' (labels_at TEST_LABELS
              (t_pins (quiet_tick 1000 ((replicate 19 LOW)[0 := HIGH, 1 := HIGH]))) HIGH)))])"
  by (rule two_high_fail [of _ 0 _ 1]) (simp_all add: quiet_tick_def)

text \<open>C4: in a reachable state of the Sequence stage, if the only high line is
  at a roster position beyond the cursor, the iteration first reports that
  line as seen (per-line OK), then reports the ordering violation naming the
  expected label (the cursor's) and the received one, and enters Fail.\<close>

theorem order_violation_fail:
  assumes reach: "reachable lbl s" and ne: "lbl \<noteq> []" and st: "state s = STATE_SEQUENCE"
    and pins: "t_pins i = (replicate (length lbl) LOW)[k := HIGH]" and k: "k < length lbl"
    and gt: "expectedIndex s < int k"
  shows "\<exists>s'. master_loop lbl i s = Some s' \<and> state s' = STATE_FAIL \<and>
           (\<exists>es. out s' = out s @ es @
              [Tx (M_SEQ_OK (lbl ! k)), Tx (M_SEQ_ORDER (lbl ! nat (expectedIndex s)) (lbl ! k))])"
proof -
  have inv: "seq_inv lbl s" using reach ne by (rule reachable_seq_inv)
  with st k gt have new: "\<not> pinWasHigh s ! k" by (auto simp: seq_inv_def)
  obtain s2 clk where m: "master_loop lbl i s = Some (sequence_step lbl i clk s2)"
    and f: "poll_frame s s2"
    using st by (cases rule: master_loop_dispatch [of lbl i s]) auto
  from f new gt have "\<not> pinWasHigh s2 ! k" "expectedIndex s2 < int k"
    by (simp_all add: poll_frame_def)
  from sequence_step_order [OF pins k this, of lbl clk] f m show ?thesis
    by (auto simp: poll_frame_def intro: out_extend)
qed

theorem order_violation_fail_witness:
  "\<exists>s. reachable TEST_LABELS s \<and> state s = STATE_SEQUENCE \<and> expectedIndex s = 3 \<and>
       (\<exists>s'. master_loop TEST_LABELS (quiet_tick 1000 (only_high 19 5)) s = Some s' \<and>
          state s' = STATE_FAIL \<and>
          (\<exists>es. out s' = out s @ es @
             [Tx (M_SEQ_OK (TEST_LABELS ! 5)),
              Tx (M_SEQ_ORDER (TEST_LABELS ! nat (expectedIndex s)) (TEST_LABELS ! 5))]))"
proof -
  obtain s where r: "reachable TEST_LABELS s" and f: "state s = STATE_SEQUENCE" "expectedIndex s = 3"
    using demo_run by blast
  have ne: "TEST_LABELS \<noteq> []" and len: "length TEST_LABELS = 19"
    by (simp_all add: TEST_LABELS_def)
  have pins: "t_pins (quiet_tick 1000 (only_high 19 5)) = (replicate (length TEST_LABELS) LOW)[5 := HIGH]"
    by (simp add: quiet_tick_def only_high_def len)
  have "5 < length TEST_LABELS" "expectedIndex s < int 5" using f len by simp_all
  from order_violation_fail [OF r ne f(1) pins this] r f show ?thesis by blast
qed

text \<open>C6: an iteration that starts in Fail ends either in Fail, when there is
  no activation (no debounced press, no latched or newly received
  \<open>START\<close>), or, on an activation, in the all-high precheck with a freshly
  reset run context (cursor 0, no line marked as seen, start latch and all
  stage markers cleared); no other stage is reachable from Fail in one step.\<close>

theorem fail_exits_only_on_activation:
  assumes st: "state s = STATE_FAIL" and r: "master_loop lbl i s = Some s'"
  shows "if activation i s
         then fresh_run lbl s' \<and> \<not> beginAllLowPrinted s' \<and> \<not> beginSequencePrinted s'
         else state s' = STATE_FAIL"
proof -
  obtain s2 clk where m: "master_loop lbl i s = fail_step lbl i clk (snd (debounce (t_now i) (t_btn i) s)) s2"
    and f: "poll_frame s s2" and req: "startRequested s2 = (startRequested s \<or> cmd_start (t_cmd i))"
    using st by (cases rule: master_loop_act [of lbl i s]) auto
  have act: "(snd (debounce (t_now i) (t_btn i) s) \<or> startRequested s2) = activation i s"
    using req by (simp add: activation_def)
  from f st have "state s2 = STATE_FAIL" by (simp add: poll_frame_def)
  from fail_step_cases [OF this r [unfolded m], unfolded act] show ?thesis
    by (cases "activation i s") simp_all
qed

theorem fail_exits_only_on_activation_witness:
  "\<exists>s'. master_loop TEST_LABELS
          \<lparr>t_now = 5000, t_cmd = Some ''start'', t_btn = HIGH, t_release = [HIGH],
           t_pins = replicate 19 LOW\<rparr>
          ((master_setup TEST_LABELS 0)\<lparr>state := STATE_FAIL\<rparr>) = Some s' \<and>
        (if activation \<lparr>t_now = 5000, t_cmd = Some ''start'', t_btn = HIGH, t_release = [HIGH],
                         t_pins = replicate 19 LOW\<rparr>
                       ((master_setup TEST_LABELS 0)\<lparr>state := STATE_FAIL\<rparr>)
         then fresh_run TEST_LABELS s' \<and> \<not> beginAllLowPrinted s' \<and> \<not> beginSequencePrinted s'
         else state s' = STATE_FAIL)"
proof -
  let ?i = "\<lparr>t_now = 5000, t_cmd = Some ''start'', t_btn = HIGH, t_release = [HIGH],
             t_pins = replicate 19 LOW\<rparr> :: tick"
  let ?s = "(master_setup TEST_LABELS 0)\<lparr>state := STATE_FAIL\<rparr>"
  have "master_loop TEST_LABELS ?i ?s \<noteq> None" by code_simp
  then obtain s' where r: "master_loop TEST_LABELS ?i ?s = Some s'" by blast
  have st: "state ?s = STATE_FAIL" by simp
  from fail_exits_only_on_activation [OF st r] r show ?thesis by blast
qed

text \<open>C7: an iteration that starts in Wait-for-button ends there when there is
  no activation; on an activation (a debounced press, or a \<open>START\<close> latched
  earlier or received in this iteration) it sends \<open>START\<close>, pulses the
  reset line low for 100 ms, and enters the all-high precheck with a freshly
  reset run context.\<close>

theorem wait_button_activation:
  assumes st: "state s = STATE_WAIT_BUTTON" and r: "master_loop lbl i s = Some s'"
  shows "if activation i s
         then fresh_run lbl s' \<and>
              (\<exists>es t. out s' = out s @ es @
                 [Tx M_START, Tx M_SENT_RESET, Reset_write LOW t, Reset_write HIGH (t + 100)])
         else state s' = STATE_WAIT_BUTTON"
proof -
  obtain s2 clk where m: "master_loop lbl i s = wait_button_step lbl i clk (snd (debounce (t_now i) (t_btn i) s)) s2"
    and f: "poll_frame s s2" and req: "startRequested s2 = (startRequested s \<or> cmd_start (t_cmd i))"
    using st by (cases rule: master_loop_act [of lbl i s]) auto
  have act: "(snd (debounce (t_now i) (t_btn i) s) \<or> startRequested s2) = activation i s"
    using req by (simp add: activation_def)
  from f st have "state s2 = STATE_WAIT_BUTTON" by (simp add: poll_frame_def)
  note c = wait_button_step_cases [OF this r [unfolded m], unfolded act]
  show ?thesis
  proof (cases "activation i s")
    case True
    with c obtain es t where fr: "fresh_run lbl s'"
      and o: "out s' = out s2 @ es @
                [Tx M_START, Tx M_SENT_RESET, Reset_write LOW t, Reset_write HIGH (t + 100)]"
      by auto
    from f obtain es0 where "out s2 = out s @ es0" by (auto simp: poll_frame_def)
    with o have "out s' = out s @ (es0 @ es) @
                [Tx M_START, Tx M_SENT_RESET, Reset_write LOW t, Reset_write HIGH (t + 100)]"
      by simp
    with True fr show ?thesis by auto
  next
    case False
    with c show ?thesis by simp
  qed
qed

theorem wait_button_activation_witness:
  "\<exists>s'. master_loop TEST_LABELS
          \<lparr>t_now = 10, t_cmd = Some ''START'', t_btn = HIGH, t_release = [HIGH],
           t_pins = replicate 19 LOW\<rparr> (master_setup TEST_LABELS 0) = Some s' \<and>
        (if activation \<lparr>t_now = 10, t_cmd = Some ''START'', t_btn = HIGH, t_release = [HIGH],
                         t_pins = replicate 19 LOW\<rparr> (master_setup TEST_LABELS 0)
         then fresh_run TEST_LABELS s' \<and>
              (\<exists>es t. out s' = out (master_setup TEST_LABELS 0) @ es @
                 [Tx M_START, Tx M_SENT_RESET, Reset_write LOW t, Reset_write HIGH (t + 100)])
         else state s' = STATE_WAIT_BUTTON)"
proof -
  let ?i = "\<lparr>t_now = 10, t_cmd = Some ''START'', t_btn = HIGH, t_release = [HIGH],
             t_pins = replicate 19 LOW\<rparr> :: tick"
  have "master_loop TEST_LABELS ?i (master_setup TEST_LABELS 0) \<noteq> None" by code_simp
  then obtain s' where r: "master_loop TEST_LABELS ?i (master_setup TEST_LABELS 0) = Some s'"
    by blast
  have st: "state (master_setup TEST_LABELS 0) = STATE_WAIT_BUTTON" by (simp add: master_setup_def)
  from wait_button_activation [OF st r] r show ?thesis by blast
qed

text \<open>C8: in a reachable state of the Sequence stage, an iteration with no
  line high that comes more than \<open>SEQUENCE_TIMEOUT_MS\<close> after the stage
  began enters Fail, and its last line is the timeout error naming the
  roster line at the cursor (the line still expected).\<close>

theorem sequence_timeout_fail:
  assumes reach: "reachable lbl s" and ne: "lbl \<noteq> []" and st: "state s = STATE_SEQUENCE"
    and pins: "t_pins i = replicate (length lbl) LOW"
    and late: "t_now i - stateStartMs s > SEQUENCE_TIMEOUT_MS"
  shows "\<exists>s'. master_loop lbl i s = Some s' \<and> state s' = STATE_FAIL \<and>
           (\<exists>es. out s' = out s @ es @ [Tx (M_SEQ_TIMEOUT (lbl ! nat (expectedIndex s)))])"
proof -
  have inv: "seq_inv lbl s" using reach ne by (rule reachable_seq_inv)
  with st have e: "expectedIndex s < int (length lbl)" by (simp add: seq_inv_def)
  obtain s2 clk where m: "master_loop lbl i s = Some (sequence_step lbl i clk s2)"
    and f: "poll_frame s s2"
    using st by (cases rule: master_loop_dispatch [of lbl i s]) auto
  from f late e have "t_now i - stateStartMs s2 > SEQUENCE_TIMEOUT_MS"
      "expectedIndex s2 < int (length lbl)"
    by (simp_all add: poll_frame_def)
  from sequence_step_timeout [OF pins this, of clk] f m show ?thesis
    by (auto simp: poll_frame_def intro: out_extend)
qed

theorem sequence_timeout_fail_witness:
  "\<exists>s. reachable TEST_LABELS s \<and> state s = STATE_SEQUENCE \<and> expectedIndex s = 3 \<and>
       (\<exists>s'. master_loop TEST_LABELS (quiet_tick 20000 (replicate 19 LOW)) s = Some s' \<and>
          state s' = STATE_FAIL \<and>
          (\<exists>es. out s' = out s @ es @ [Tx (M_SEQ_TIMEOUT ''P0_02'')]))"
proof -
  obtain s where r: "reachable TEST_LABELS s" and f: "state s = STATE_SEQUENCE" "expectedIndex s = 3"
    "stateStartMs s = 300"
    using demo_run by blast
  have ne: "TEST_LABELS \<noteq> []" and len: "length TEST_LABELS = 19"
    by (simp_all add: TEST_LABELS_def)
  have pins: "t_pins (quiet_tick 20000 (replicate 19 LOW)) = replicate (length TEST_LABELS) LOW"
    by (simp add: quiet_tick_def len)
  have late: "t_now (quiet_tick 20000 (replicate 19 LOW)) - stateStartMs s > SEQUENCE_TIMEOUT_MS"
    using f by (simp add: quiet_tick_def SEQUENCE_TIMEOUT_MS_def)
  have lbl: "TEST_LABELS ! nat (expectedIndex s) = ''P0_02''"
    using f by (simp add: TEST_LABELS_def)
  from sequence_timeout_fail [OF r ne f(1) pins late] r f lbl show ?thesis by auto
qed

text \<open>C9: in the all-high precheck, an iteration that finds some line not high
  more than \<open>PRECHECK_TIMEOUT_MS\<close> after the stage began sends the
  \<open>ALL_HIGH\<close> error listing every line that reads low, in roster order,
  joined by \<open>", "\<close>, and still moves on to the all-low precheck.\<close>

theorem all_high_timeout_lists_low:
  assumes st: "state s = STATE_WAIT_ALL_HIGH"
    and notall: "\<not> list_all (\<lambda>x. x = HIGH) (t_pins i)"
    and late: "t_now i - stateStartMs s > PRECHECK_TIMEOUT_MS"
  shows "\<exists>s'. master_loop lbl i s = Some s' \<and> state s' = STATE_WAIT_ALL_LOW \<and>
           (\<exists>es. out s' = out s @ es @
              [Tx (M_ALL_HIGH_ERROR (join '', '' (labels_at lbl (t_pins i) LOW)))])"
proof -
  obtain s2 clk where m: "master_loop lbl i s = Some (wait_all_high_step lbl i clk s2)"
    and f: "poll_frame s s2"
    using st by (cases rule: master_loop_dispatch [of lbl i s]) auto
  from notall have "\<not> all_at HIGH (t_pins i)" by (simp add: all_at_eq)
  moreover from f late have "t_now i - stateStartMs s2 > PRECHECK_TIMEOUT_MS"
    by (simp add: poll_frame_def)
  ultimately have "state (wait_all_high_step lbl i clk s2) = STATE_WAIT_ALL_LOW \<and>
         (\<exists>es. out (wait_all_high_step lbl i clk s2) = out s2 @ es @
            [Tx (M_ALL_HIGH_ERROR (printDynamicPinsByLevel lbl (t_pins i) LOW))])"
    by (rule wait_all_high_step_timeout)
  with f m show ?thesis
    by (auto simp: poll_frame_def printDynamicPinsByLevel_eq intro: out_extend)
qed

theorem all_high_timeout_lists_low_witness:
  "\<exists>s'. master_loop TEST_LABELS (quiet_tick 3001 ((replicate 19 HIGH)[4 := LOW, 7 := LOW]))
          ((master_setup TEST_LABELS 0)\<lparr>state := STATE_WAIT_ALL_HIGH\<rparr>) = Some s' \<and>
        state s' = STATE_WAIT_ALL_LOW \<and>
        (\<exists>es. out s' = out ((master_setup TEST_LABELS 0)\<lparr>state := STATE_WAIT_ALL_HIGH\<rparr>) @ es @
           [Tx (M_ALL_HIGH_ERROR (join '', '' (labels_at TEST_LABELS
              (t_pins (quiet_tick 3001 ((replicate 19 HIGH)[4 := LOW, 7 := LOW]))) LOW)))])"
  by (rule all_high_timeout_lists_low)
     (simp, code_simp, simp add: quiet_tick_def master_setup_def PRECHECK_TIMEOUT_MS_def)

text \<open>C18: Success is left after exactly one iteration, whatever the inputs:
  that iteration sends the success line and enters Wait-for-button.\<close>

theorem success_to_wait_button:
  assumes st: "state s = STATE_SUCCESS"
  shows "\<exists>s'. master_loop lbl i s = Some s' \<and> state s' = STATE_WAIT_BUTTON \<and>
           (\<exists>es. out s' = out s @ es @ [Tx M_SUCCESS])"
proof -
  obtain s2 clk where m: "master_loop lbl i s = Some (success_step clk s2)"
    and f: "poll_frame s s2"
    using st by (cases rule: master_loop_dispatch [of lbl i s]) auto
  from m f show ?thesis
    by (auto simp: success_step_def toState_def emit_def poll_frame_def)
qed

theorem success_to_wait_button_witness:
  "\<exists>s'. master_loop TEST_LABELS (quiet_tick 7000 (replicate 19 LOW))
          ((master_setup TEST_LABELS 0)\<lparr>state := STATE_SUCCESS\<rparr>) = Some s' \<and>
        state s' = STATE_WAIT_BUTTON \<and>
        (\<exists>es. out s' = out ((master_setup TEST_LABELS 0)\<lparr>state := STATE_SUCCESS\<rparr>) @ es @ [Tx M_SUCCESS])"
  by (rule success_to_wait_button) simp

text \<open>C10: in every reachable state (roster not empty) the cursor lies in
  \<open>0..N\<close> and \<open>pinWasHigh\<close> has one flag per line; in the Sequence stage
  and in Fail the cursor is a valid roster index, so the timeout error
  always names a roster line and never \<open>"end"\<close>; Success is entered with
  the cursor at \<open>N\<close>.\<close>

theorem reachable_cursor_bounds:
  assumes "reachable lbl s" "lbl \<noteq> []"
  shows "0 \<le> expectedIndex s \<and> expectedIndex s \<le> int (length lbl) \<and>
         length (pinWasHigh s) = length lbl \<and>
         (state s = STATE_SEQUENCE \<or> state s = STATE_FAIL \<longrightarrow> expectedIndex s < int (length lbl)) \<and>
         (state s = STATE_SUCCESS \<longrightarrow> expectedIndex s = int (length lbl))"
  using reachable_seq_inv [OF assms] by (auto simp: seq_inv_def)

theorem reachable_cursor_bounds_witness:
  "\<exists>s. reachable TEST_LABELS s \<and> state s = STATE_SEQUENCE \<and>
       0 \<le> expectedIndex s \<and> expectedIndex s \<le> int (length TEST_LABELS) \<and>
       length (pinWasHigh s) = length TEST_LABELS \<and>
       (state s = STATE_SEQUENCE \<or> state s = STATE_FAIL \<longrightarrow> expectedIndex s < int (length TEST_LABELS)) \<and>
       (state s = STATE_SUCCESS \<longrightarrow> expectedIndex s = int (length TEST_LABELS))"
proof -
  obtain s where r: "reachable TEST_LABELS s" and f: "state s = STATE_SEQUENCE"
    using demo_run by blast
  have "TEST_LABELS \<noteq> []" by (simp add: TEST_LABELS_def)
  from reachable_cursor_bounds [OF r this] r f show ?thesis by blast
qed

text \<open>C20: the blocking release wait returns exactly when one of the button
  readings it makes is high, after 10 ms for each low reading before it;
  when every reading is low it does not return.\<close>

theorem wait_release_some:
  "wait_release bs clk = (if HIGH \<in> set bs
     then Some (clk + 10 * word_of_nat (length (takeWhile (\<lambda>b. b = LOW) bs))) else None)"
  by (induction bs arbitrary: clk) (auto simp: algebra_simps)

subsection \<open>Commands, in any stage\<close>

text \<open>C14: a \<open>FLASH\<close> or \<open>DFU\<close> line, in any stage, sends the flash line and
  two 100 ms low pulses on the reset line 200 ms apart, delays the rest of
  the iteration by 400 ms, and changes nothing else of the Master's state.\<close>

theorem flash_poll:
  assumes "classify_cmd c = FlashRequested"
  shows "serial_poll (Some c) now s =
           (s\<lparr>out := out s @ [Tx M_FLASH_CMD, Tx M_SENT_RESET, Reset_write LOW now,
                                Reset_write HIGH (now + 100), Tx M_SENT_RESET,
                                Reset_write LOW (now + 300), Reset_write HIGH (now + 400)]\<rparr>,
            now + 400)"
  using assms by (simp add: serial_poll_def enterFlashMode_def pulseReset_def Let_def algebra_simps)

theorem flash_poll_witness:
  "serial_poll (Some '' dfu'') 1000 (master_setup TEST_LABELS 0) =
     ((master_setup TEST_LABELS 0)\<lparr>out := [Reset_write HIGH 0, Tx M_READY] @
        [Tx M_FLASH_CMD, Tx M_SENT_RESET, Reset_write LOW 1000, Reset_write HIGH 1100, Tx M_SENT_RESET,
         Reset_write LOW 1300, Reset_write HIGH 1400]\<rparr>, 1400)"
proof -
  have "classify_cmd '' dfu'' = FlashRequested" by code_simp
  from flash_poll [OF this, of 1000 "master_setup TEST_LABELS 0"] show ?thesis
    by (simp add: master_setup_def)
qed

text \<open>C13: a \<open>START\<close> received, or already latched, while a run is in
  progress (the two prechecks, the Sequence stage, or the iteration that
  reports success) is kept in \<open>startRequested\<close>: the iteration neither
  drops it nor restarts the run (the cursor \<open>expectedIndex\<close> does not move
  back), whatever it does with the lines.\<close>

theorem start_latched_during_run:
  assumes st: "state s \<in> {STATE_WAIT_ALL_HIGH, STATE_WAIT_ALL_LOW, STATE_SEQUENCE, STATE_SUCCESS}"
    and req: "startRequested s \<or> cmd_start (t_cmd i)"
    and m: "master_loop lbl i s = Some s'"
  shows "startRequested s' \<and> expectedIndex s \<le> expectedIndex s'"
proof -
  obtain s2 clk where d: "master_loop lbl i s =
       (case state s of
          STATE_WAIT_BUTTON \<Rightarrow> wait_button_step lbl i clk (snd (debounce (t_now i) (t_btn i) s)) s2
        | STATE_WAIT_ALL_HIGH \<Rightarrow> Some (wait_all_high_step lbl i clk s2)
        | STATE_WAIT_ALL_LOW \<Rightarrow> Some (wait_all_low_step lbl i clk s2)
        | STATE_SEQUENCE \<Rightarrow> Some (sequence_step lbl i clk s2)
        | STATE_SUCCESS \<Rightarrow> Some (success_step clk s2)
        | STATE_FAIL \<Rightarrow> fail_step lbl i clk (snd (debounce (t_now i) (t_btn i) s)) s2)"
    and f: "poll_frame s s2" and r: "startRequested s2 = (startRequested s \<or> cmd_start (t_cmd i))"
    by (rule master_loop_act)
  have r2: "startRequested s2" using r req by simp
  have e2: "expectedIndex s2 = expectedIndex s" using f by (simp add: poll_frame_def)
  show ?thesis
    using st
  proof (elim insertE emptyE)
    assume "state s = STATE_WAIT_ALL_HIGH"
    with d m r2 e2 show ?thesis by (auto simp: wait_all_high_step_stays)
  next
    assume "state s = STATE_WAIT_ALL_LOW"
    with d m r2 e2 show ?thesis by (auto simp: wait_all_low_step_stays)
  next
    assume "state s = STATE_SEQUENCE"
    with d m r2 e2 sequence_step_stays [of lbl i clk s2] show ?thesis by auto
  next
    assume "state s = STATE_SUCCESS"
    with d m r2 e2 show ?thesis by (auto simp: success_step_def toState_def emit_def)
  qed
qed

theorem start_latched_during_run_witness:
  "\<exists>s'. master_loop TEST_LABELS
          \<lparr>t_now = 1000, t_cmd = Some ''START'', t_btn = HIGH, t_release = [HIGH],
           t_pins = replicate 19 LOW\<rparr>
          ((master_setup TEST_LABELS 0)\<lparr>state := STATE_SEQUENCE\<rparr>) = Some s' \<and>
        \<not> startRequested ((master_setup TEST_LABELS 0)\<lparr>state := STATE_SEQUENCE\<rparr>) \<and>
        startRequested s' \<and> 0 \<le> expectedIndex s'"
proof -
  let ?s = "(master_setup TEST_LABELS 0)\<lparr>state := STATE_SEQUENCE\<rparr>"
  let ?i = "\<lparr>t_now = 1000 :: u32, t_cmd = Some ''START'', t_btn = HIGH, t_release = [HIGH],
             t_pins = replicate 19 LOW\<rparr>"
  obtain s2 clk pressed where "master_loop TEST_LABELS ?i ?s =
       (case state ?s of
          STATE_WAIT_BUTTON \<Rightarrow> wait_button_step TEST_LABELS ?i clk pressed s2
        | STATE_WAIT_ALL_HIGH \<Rightarrow> Some (wait_all_high_step TEST_LABELS ?i clk s2)
        | STATE_WAIT_ALL_LOW \<Rightarrow> Some (wait_all_low_step TEST_LABELS ?i clk s2)
        | STATE_SEQUENCE \<Rightarrow> Some (sequence_step TEST_LABELS ?i clk s2)
        | STATE_SUCCESS \<Rightarrow> Some (success_step clk s2)
        | STATE_FAIL \<Rightarrow> fail_step TEST_LABELS ?i clk pressed s2)"
    by (rule master_loop_dispatch)
  then obtain s' where m: "master_loop TEST_LABELS ?i ?s = Some s'" by simp
  have "classify_cmd ''START'' = StartRequested" by code_simp
  then have c: "cmd_start (t_cmd ?i)" by (simp add: cmd_start_def)
  from start_latched_during_run [of ?s ?i TEST_LABELS s'] m c
  have "startRequested s' \<and> expectedIndex ?s \<le> expectedIndex s'" by simp
  with m show ?thesis by (simp add: master_setup_def)
qed

end
