(* ===== verification/Stage_Markers.thy ===== *)
theory Stage_Markers
  imports Stages
begin

text \<open>
  The stage BEGIN lines and the \<open>Master: FAIL\<close> line.  The Master prints
  \<open>ALL_HIGH: BEGIN\<close>, \<open>ALL_LOW: BEGIN\<close>, \<open>SEQUENCE: BEGIN\<close> and
  \<open>Master: FAIL\<close> on the first pass through the stage's handler after it
  is entered, guarded by the flags \<open>beginAllHighPrinted\<close>,
  \<open>beginAllLowPrinted\<close>, \<open>beginSequencePrinted\<close>, \<open>beginFailPrinted\<close>
  (\<open>main.cpp\<close>, \<open>loop()\<close>).  \<open>begin_inv\<close> counts, in the event log,
  the entries into each stage (the \<open>Master: START\<close> line for All-High,
  the verdict lines of the stage before for the others) and the BEGIN lines
  printed: they agree, up to one entry whose BEGIN line is still pending
  (its flag is clear).  Every handler preserves this, so in every reachable
  state each entry into a stage has printed its BEGIN line exactly once.
\<close>

fun enters_all_low :: "marker \<Rightarrow> bool" where
  "enters_all_low M_ALL_HIGH_OK = True"
| "enters_all_low (M_ALL_HIGH_ERROR p) = True"
| "enters_all_low m = False"

fun enters_sequence :: "marker \<Rightarrow> bool" where
  "enters_sequence M_ALL_LOW_OK = True"
| "enters_sequence (M_ALL_LOW_ERROR p) = True"
| "enters_sequence m = False"

fun enters_fail :: "marker \<Rightarrow> bool" where
  "enters_fail (M_SEQ_FAIL_PINS p) = True"
| "enters_fail (M_SEQ_ORDER e r) = True"
| "enters_fail (M_SEQ_REPEATED l) = True"
| "enters_fail (M_SEQ_TIMEOUT l) = True"
| "enters_fail m = False"

definition cnt :: "(marker \<Rightarrow> bool) \<Rightarrow> io_event list \<Rightarrow> nat" where
  "cnt P es = length (filter P (tx_markers es))"

definition pending :: "bool \<Rightarrow> nat" where
  "pending b = (if b then 1 else 0)"

definition begin_inv :: "mstate \<Rightarrow> bool" where
  "begin_inv s \<longleftrightarrow>
     cnt (\<lambda>m. m = M_ALL_HIGH_BEGIN) (out s)
       + pending (state s = STATE_WAIT_ALL_HIGH \<and> \<not> beginAllHighPrinted s)
       = cnt (\<lambda>m. m = M_START) (out s) \<and>
     cnt (\<lambda>m. m = M_ALL_LOW_BEGIN) (out s)
       + pending (state s = STATE_WAIT_ALL_LOW \<and> \<not> beginAllLowPrinted s)
       = cnt enters_all_low (out s) \<and>
     cnt (\<lambda>m. m = M_SEQ_BEGIN) (out s)
       + pending (state s = STATE_SEQUENCE \<and> \<not> beginSequencePrinted s)
       = cnt enters_sequence (out s) \<and>
     cnt (\<lambda>m. m = M_FAIL) (out s)
       + pending (state s = STATE_FAIL \<and> \<not> beginFailPrinted s)
       = cnt enters_fail (out s)"

lemma cnt_append [simp]: "cnt P (xs @ ys) = cnt P xs + cnt P ys"
  by (simp add: cnt_def)

lemma cnt_Tx [simp]: "cnt P [Tx m] = (if P m then 1 else 0)"
  by (simp add: cnt_def)

lemma cnt_Reset [simp]: "cnt P (Reset_write b t # es) = cnt P es"
  by (simp add: cnt_def)

lemma cnt_Tx_Cons [simp]: "cnt P (Tx m # es) = (if P m then 1 else 0) + cnt P es"
  by (simp add: cnt_def)

lemma cnt_Nil [simp]: "cnt P [] = 0"
  by (simp add: cnt_def)

lemmas begin_simps = begin_inv_def pending_def emit_def toState_def

lemma seq_edge_begin:
  assumes binv: "begin_inv s" and st: "state s = STATE_SEQUENCE"
    and bs: "beginSequencePrinted s" and bf: "\<not> beginFailPrinted s"
  shows "case seq_edge lbl lv clk s of
           Break s' \<Rightarrow> begin_inv s'
         | Next s' \<Rightarrow> begin_inv s' \<and> state s' = STATE_SEQUENCE \<and> beginSequencePrinted s' \<and>
                     \<not> beginFailPrinted s'"
proof -
  obtain c h where ch: "count_high lv = (c, h)" by (cases "count_high lv")
  have "0 \<le> c" using count_high_nonneg [of lv] ch by simp
  then consider (many) "c > 1" | (one) "c = 1" | (none) "c = 0" by linarith
  then show ?thesis
  proof cases
    case many
    with assms show ?thesis by (simp add: seq_edge_def ch begin_simps)
  next
    case one
    with assms ch show ?thesis
      by (auto simp: seq_edge_def begin_simps Let_def)
  next
    case none
    with assms show ?thesis by (simp add: seq_edge_def ch begin_simps)
  qed
qed

lemma begin_inv_pre:
  assumes "poll_frame s s2" shows "begin_inv s2 = begin_inv s"
proof -
  from assms obtain es where o: "out s2 = out s @ es"
    and es: "set (tx_markers es) \<subseteq> {M_START_CMD, M_FLASH_CMD, M_SENT_RESET}"
    by (auto simp: poll_frame_def)
  have z: "cnt P es = 0" if "\<not> P M_START_CMD" "\<not> P M_FLASH_CMD" "\<not> P M_SENT_RESET" for P
    using es that by (auto simp: cnt_def filter_empty_conv)
  have "cnt (\<lambda>m. m = M_ALL_HIGH_BEGIN) es = 0" "cnt (\<lambda>m. m = M_START) es = 0"
    "cnt (\<lambda>m. m = M_ALL_LOW_BEGIN) es = 0" "cnt enters_all_low es = 0"
    "cnt (\<lambda>m. m = M_SEQ_BEGIN) es = 0" "cnt enters_sequence es = 0"
    "cnt (\<lambda>m. m = M_FAIL) es = 0" "cnt enters_fail es = 0"
    by (rule z; simp)+
  with assms o show ?thesis by (simp add: begin_simps poll_frame_def)
qed

lemma wait_all_high_step_begin:
  "begin_inv s \<Longrightarrow> state s = STATE_WAIT_ALL_HIGH \<Longrightarrow> begin_inv (wait_all_high_step lbl i clk s)"
  by (auto simp: wait_all_high_step_def begin_simps Let_def split: if_splits)

lemma wait_all_low_step_begin:
  "begin_inv s \<Longrightarrow> state s = STATE_WAIT_ALL_LOW \<Longrightarrow> begin_inv (wait_all_low_step lbl i clk s)"
  by (auto simp: wait_all_low_step_def begin_simps Let_def split: if_splits)

lemma sequence_step_begin:
  assumes binv: "begin_inv s" and st: "state s = STATE_SEQUENCE" and bf: "\<not> beginFailPrinted s"
  shows "begin_inv (sequence_step lbl i clk s)"
proof -
  define s1 where "s1 = (if \<not> beginSequencePrinted s
             then (emit M_SEQ_BEGIN s)\<lparr>beginSequencePrinted := True\<rparr> else s)"
  have "begin_inv s1" "state s1 = STATE_SEQUENCE" "beginSequencePrinted s1" "\<not> beginFailPrinted s1"
    using binv st bf by (auto simp: s1_def begin_simps)
  note e = seq_edge_begin [OF this, of lbl "t_pins i" clk]
  show ?thesis
  proof (cases "seq_edge lbl (t_pins i) clk s1")
    case (Break s2)
    with e show ?thesis by (simp add: sequence_step_def s1_def [symmetric])
  next
    case (Next s2)
    with e show ?thesis
      by (auto simp: sequence_step_def s1_def [symmetric] seq_timeout_def begin_simps)
  qed
qed

lemma success_step_begin:
  "begin_inv s \<Longrightarrow> state s = STATE_SUCCESS \<Longrightarrow> begin_inv (success_step clk s)"
  by (simp add: success_step_def begin_simps)

lemma wait_button_step_shape:
  assumes "wait_button_step lbl i clk pressed s = Some s'"
  shows "\<exists>idle. set idle \<subseteq> {Tx M_IDLE} \<and>
           ((state s' = state s \<and> out s' = out s @ idle) \<or>
            (fresh_run lbl s' \<and>
             (\<exists>t. out s' = out s @ idle @
                 [Tx M_START, Tx M_SENT_RESET, Reset_write LOW t, Reset_write HIGH (t + 100)])))"
proof (cases "t_now i - lastBlinkMs s \<ge> 500")
  case True
  with assms show ?thesis
    by (intro exI [of _ "[Tx M_IDLE]"])
       (auto simp: wait_button_step_def fresh_run_def toState_def emit_def pulseReset_def Let_def
             split: if_splits option.splits)
next
  case False
  with assms show ?thesis
    by (intro exI [of _ "[]"])
       (auto simp: wait_button_step_def fresh_run_def toState_def emit_def pulseReset_def Let_def
             split: if_splits option.splits)
qed

lemma wait_button_step_begin:
  assumes b: "begin_inv s" and st: "state s = STATE_WAIT_BUTTON"
    and r: "wait_button_step lbl i clk pressed s = Some s'"
  shows "begin_inv s'"
proof -
  obtain idle where idle: "set idle \<subseteq> {Tx M_IDLE}"
    and c: "(state s' = state s \<and> out s' = out s @ idle) \<or>
            (fresh_run lbl s' \<and>
             (\<exists>t. out s' = out s @ idle @
                 [Tx M_START, Tx M_SENT_RESET, Reset_write LOW t, Reset_write HIGH (t + 100)]))"
    using wait_button_step_shape [OF r] by blast
  from idle have z: "cnt P idle = 0" if "\<not> P M_IDLE" for P
    using that by (induction idle) (auto simp: cnt_def)
  from c show ?thesis
  proof
    assume "state s' = state s \<and> out s' = out s @ idle"
    with b st z show ?thesis by (simp add: begin_simps)
  next
    assume "fresh_run lbl s' \<and> (\<exists>t. out s' = out s @ idle @
                 [Tx M_START, Tx M_SENT_RESET, Reset_write LOW t, Reset_write HIGH (t + 100)])"
    with b st z show ?thesis by (auto simp: begin_simps fresh_run_def)
  qed
qed

lemma fail_step_shape:
  assumes "fail_step lbl i clk pressed s = Some s'"
  shows "(state s' = state s \<and> beginFailPrinted s' \<and>
          out s' = out s @ (if beginFailPrinted s then [] else [Tx M_FAIL])) \<or>
         (fresh_run lbl s' \<and> \<not> beginAllLowPrinted s' \<and> \<not> beginSequencePrinted s' \<and>
          (\<exists>t. out s' = out s @ (if beginFailPrinted s then [] else [Tx M_FAIL]) @
              [Tx M_START, Tx M_SENT_RESET, Reset_write LOW t, Reset_write HIGH (t + 100)]))"
proof (cases "beginFailPrinted s")
  case True
  with assms show ?thesis
    by (auto simp: fail_step_def fresh_run_def toState_def emit_def pulseReset_def Let_def
             split: if_splits option.splits)
next
  case False
  with assms show ?thesis
    by (auto simp: fail_step_def fresh_run_def toState_def emit_def pulseReset_def Let_def
             split: if_splits option.splits)
qed

lemma fail_step_begin:
  assumes b: "begin_inv s" and st: "state s = STATE_FAIL"
    and r: "fail_step lbl i clk pressed s = Some s'"
  shows "begin_inv s'"
  using fail_step_shape [OF r]
proof
  assume "state s' = state s \<and> beginFailPrinted s' \<and>
          out s' = out s @ (if beginFailPrinted s then [] else [Tx M_FAIL])"
  with b st show ?thesis by (cases "beginFailPrinted s") (simp_all add: begin_simps)
next
  assume "fresh_run lbl s' \<and> \<not> beginAllLowPrinted s' \<and> \<not> beginSequencePrinted s' \<and>
          (\<exists>t. out s' = out s @ (if beginFailPrinted s then [] else [Tx M_FAIL]) @
              [Tx M_START, Tx M_SENT_RESET, Reset_write LOW t, Reset_write HIGH (t + 100)])"
  with b st show ?thesis
    by (cases "beginFailPrinted s") (auto simp: begin_simps fresh_run_def)
qed

lemma master_loop_begin:
  assumes binv: "begin_inv s" and inv: "seq_inv lbl s" and step: "master_loop lbl i s = Some s'"
  shows "begin_inv s'"
proof -
  obtain s2 clk pressed where m: "master_loop lbl i s =
       (case state s of
          STATE_WAIT_BUTTON \<Rightarrow> wait_button_step lbl i clk pressed s2
        | STATE_WAIT_ALL_HIGH \<Rightarrow> Some (wait_all_high_step lbl i clk s2)
        | STATE_WAIT_ALL_LOW \<Rightarrow> Some (wait_all_low_step lbl i clk s2)
        | STATE_SEQUENCE \<Rightarrow> Some (sequence_step lbl i clk s2)
        | STATE_SUCCESS \<Rightarrow> Some (success_step clk s2)
        | STATE_FAIL \<Rightarrow> fail_step lbl i clk pressed s2)"
    and f: "poll_frame s s2"
    by (rule master_loop_dispatch)
  have b2: "begin_inv s2" using begin_inv_pre [OF f] binv by simp
  have st2: "state s2 = state s" and bf2: "beginFailPrinted s2 = beginFailPrinted s"
    using f by (simp_all add: poll_frame_def)
  show ?thesis
  proof (cases "state s")
    case STATE_WAIT_BUTTON
    with step m b2 st2 show ?thesis by (simp add: wait_button_step_begin)
  next
    case STATE_WAIT_ALL_HIGH
    with step m b2 st2 show ?thesis by (auto simp: wait_all_high_step_begin)
  next
    case STATE_WAIT_ALL_LOW
    with step m b2 st2 show ?thesis by (auto simp: wait_all_low_step_begin)
  next
    case STATE_SEQUENCE
    with inv have "\<not> beginFailPrinted s" by (simp add: seq_inv_def)
    with STATE_SEQUENCE step m b2 st2 bf2 show ?thesis by (auto simp: sequence_step_begin)
  next
    case STATE_SUCCESS
    with step m b2 st2 show ?thesis by (auto simp: success_step_begin)
  next
    case STATE_FAIL
    with step m b2 st2 show ?thesis by (simp add: fail_step_begin)
  qed
qed

lemma reachable_begin_inv: "reachable lbl s \<Longrightarrow> lbl \<noteq> [] \<Longrightarrow> begin_inv s"
proof (induction rule: reachable.induct)
  case (init t)
  show ?case by (simp add: master_setup_def begin_simps)
next
  case (step s i s')
  then show ?case by (blast intro: master_loop_begin reachable_seq_inv)
qed

text \<open>C3: in every reachable state of the Master, each stage's BEGIN line has
  been printed once for every entry into the stage, except for an entry still
  pending in the current state whose flag is clear: ALL_HIGH BEGIN lines match
  the \<open>Master: START\<close> lines, ALL_LOW BEGIN lines match the All-High
  verdicts, SEQUENCE BEGIN lines match the All-Low verdicts, and
  \<open>Master: FAIL\<close> lines match the sequence errors.\<close>

theorem stage_begin_once:
  assumes "reachable lbl s" "lbl \<noteq> []"
  shows "cnt (\<lambda>m. m = M_ALL_HIGH_BEGIN) (out s)
           + pending (state s = STATE_WAIT_ALL_HIGH \<and> \<not> beginAllHighPrinted s)
           = cnt (\<lambda>m. m = M_START) (out s) \<and>
         cnt (\<lambda>m. m = M_ALL_LOW_BEGIN) (out s)
           + pending (state s = STATE_WAIT_ALL_LOW \<and> \<not> beginAllLowPrinted s)
           = cnt enters_all_low (out s) \<and>
         cnt (\<lambda>m. m = M_SEQ_BEGIN) (out s)
           + pending (state s = STATE_SEQUENCE \<and> \<not> beginSequencePrinted s)
           = cnt enters_sequence (out s) \<and>
         cnt (\<lambda>m. m = M_FAIL) (out s)
           + pending (state s = STATE_FAIL \<and> \<not> beginFailPrinted s)
           = cnt enters_fail (out s)"
  using reachable_begin_inv [OF assms] by (simp add: begin_inv_def)

theorem stage_begin_once_witness:
  "\<exists>s. reachable TEST_LABELS s \<and> state s = STATE_SEQUENCE \<and>
       cnt (\<lambda>m. m = M_ALL_HIGH_BEGIN) (out s)
           + pending (state s = STATE_WAIT_ALL_HIGH \<and> \<not> beginAllHighPrinted s)
           = cnt (\<lambda>m. m = M_START) (out s) \<and>
       cnt (\<lambda>m. m = M_ALL_LOW_BEGIN) (out s)
           + pending (state s = STATE_WAIT_ALL_LOW \<and> \<not> beginAllLowPrinted s)
           = cnt enters_all_low (out s) \<and>
       cnt (\<lambda>m. m = M_SEQ_BEGIN) (out s)
           + pending (state s = STATE_SEQUENCE \<and> \<not> beginSequencePrinted s)
           = cnt enters_sequence (out s) \<and>
       cnt (\<lambda>m. m = M_FAIL) (out s)
           + pending (state s = STATE_FAIL \<and> \<not> beginFailPrinted s)
           = cnt enters_fail (out s)"
proof -
  obtain s where r: "reachable TEST_LABELS s" and f: "state s = STATE_SEQUENCE"
    using demo_run by blast
  have "TEST_LABELS \<noteq> []" by (simp add: TEST_LABELS_def)
  from stage_begin_once [OF r this] r f show ?thesis by blast
qed

end
