(* ===== verification/Clean_Run.thy ===== *)
theory Clean_Run
  imports Scenarios
begin

text \<open>
  A clean test run of the Master, iteration by iteration.  The Target's
  stimulus, as the Master samples it, is a sequence of snapshots: not yet all
  high, all high, not yet all low, all low, then the pulse train
  (\<open>clean_sequence\<close>).  For each stage the theory proves what a run of
  \<open>loop()\<close> iterations does on the snapshots of that stage (\<open>run_ah_phase\<close>,
  \<open>run_al_phase\<close>, \<open>run_seq_success\<close>), and composes them into the clean-run
  theorem.  The pending BEGIN line of a stage is handled once for all three
  stages by \<open>stage_begin\<close>: an iteration from a state whose BEGIN line is
  still pending behaves as one from the state in which it has been printed
  (\<open>loop_stage_begin\<close>).
\<close>

text \<open>\<open>seq_at lbl k t0 s\<close>: the Master is in Sequence, entered at \<open>t0\<close>, its
  BEGIN line printed, with cursor \<open>k\<close> and no line beyond the cursor marked as
  seen.\<close>

definition seq_at :: "string list \<Rightarrow> nat \<Rightarrow> u32 \<Rightarrow> mstate \<Rightarrow> bool" where
  "seq_at lbl k t0 s \<longleftrightarrow>
     state s = STATE_SEQUENCE \<and> beginSequencePrinted s \<and> expectedIndex s = int k \<and>
     stateStartMs s = t0 \<and> length (pinWasHigh s) = length lbl \<and>
     (\<forall>j < length lbl. pinWasHigh s ! j \<longrightarrow> j < k)"

text \<open>The snapshots the Master reads during a clean pulse train: for every line
  \<open>k\<close> but the last, \<open>lo k\<close> all-low snapshots and then \<open>hi k\<close> snapshots
  with line \<open>k\<close> alone high; for the last line, \<open>lo (n - 1)\<close> all-low
  snapshots and the first snapshot of its pulse, at which the Master leaves
  the stage.\<close>

definition clean_sequence :: "nat \<Rightarrow> (nat \<Rightarrow> nat) \<Rightarrow> (nat \<Rightarrow> nat) \<Rightarrow> bool list list" where
  "clean_sequence n lo hi =
     concat (map (\<lambda>k. replicate (lo k) (replicate n LOW) @ replicate (hi k) (only_high n k)) [0..<n - 1])
     @ replicate (lo (n - 1)) (replicate n LOW) @ [only_high n (n - 1)]"

text \<open>The first thing the All-High, All-Low and Sequence handlers do: print
  the stage's BEGIN line if its flag is clear, and set the flag.\<close>

definition stage_begin :: "mstate \<Rightarrow> mstate" where
  "stage_begin s =
     (case state s of
        STATE_WAIT_ALL_HIGH \<Rightarrow> if beginAllHighPrinted s then s
                              else (emit M_ALL_HIGH_BEGIN s)\<lparr>beginAllHighPrinted := True\<rparr>
      | STATE_WAIT_ALL_LOW \<Rightarrow> if beginAllLowPrinted s then s
                              else (emit M_ALL_LOW_BEGIN s)\<lparr>beginAllLowPrinted := True\<rparr>
      | STATE_SEQUENCE \<Rightarrow> if beginSequencePrinted s then s
                          else (emit M_SEQ_BEGIN s)\<lparr>beginSequencePrinted := True\<rparr>
      | _ \<Rightarrow> s)"

text \<open>\<open>ctx_at lbl st t0 s\<close>: the Master is in stage \<open>st\<close>, entered at \<open>t0\<close>,
  with the run context as an activation leaves it.\<close>

definition ctx_at :: "string list \<Rightarrow> TestState \<Rightarrow> u32 \<Rightarrow> mstate \<Rightarrow> bool" where
  "ctx_at lbl st t0 s \<longleftrightarrow>
     state s = st \<and> stateStartMs s = t0 \<and> expectedIndex s = 0 \<and>
     pinWasHigh s = replicate (length lbl) False"

text \<open>A clean run on the 19-line roster: all high at 1000 ms (and still at
  1500 ms, in All-Low), all low at 2000 ms, then the pulse train sampled once
  per pulse and once per gap at 2100 ms.\<close>

definition clean_demo_ticks :: "tick list" where
  "clean_demo_ticks =
     [quiet_tick 1000 (replicate 19 HIGH), quiet_tick 1500 (replicate 19 HIGH),
      quiet_tick 2000 (replicate 19 LOW)] @
     map (quiet_tick 2100) (clean_sequence 19 (\<lambda>_. 1) (\<lambda>_. 1))"

subsection \<open>Helper facts\<close>

lemma run_append:
  "run lbl (xs @ ys) s = (case run lbl xs s of None \<Rightarrow> None | Some s' \<Rightarrow> run lbl ys s')"
  by (induction xs arbitrary: s) (auto split: option.split)

lemma map_eq_replicateD: "map f us = replicate n x \<Longrightarrow> u \<in> set us \<Longrightarrow> f u = x"
  by (metis imageI in_set_replicate list.set_map)

lemma map_append_split:
  assumes "map f xs = ys @ zs"
  obtains us vs where "xs = us @ vs" "map f us = ys" "map f vs = zs"
  using assms by (auto simp: map_eq_append_conv)

lemma state_debounce [simp]: "state (fst (debounce now b s)) = state s"
  by (simp add: debounce_def Let_def)

lemma debounce_fields [simp]:
  "stateStartMs (fst (debounce now b s)) = stateStartMs s \<and>
   expectedIndex (fst (debounce now b s)) = expectedIndex s \<and>
   pinWasHigh (fst (debounce now b s)) = pinWasHigh s \<and>
   out (fst (debounce now b s)) = out s \<and>
   beginAllHighPrinted (fst (debounce now b s)) = beginAllHighPrinted s \<and>
   beginAllLowPrinted (fst (debounce now b s)) = beginAllLowPrinted s \<and>
   beginSequencePrinted (fst (debounce now b s)) = beginSequencePrinted s"
  by (simp add: debounce_def Let_def)

lemma master_loop_quiet_debounce:
  assumes "t_cmd i = None"
  shows "master_loop lbl i s =
     (let d = debounce (t_now i) (t_btn i) s; clk = t_now i in
      case state s of
        STATE_WAIT_BUTTON \<Rightarrow> wait_button_step lbl i clk (snd d) (fst d)
      | STATE_WAIT_ALL_HIGH \<Rightarrow> Some (wait_all_high_step lbl i clk (fst d))
      | STATE_WAIT_ALL_LOW \<Rightarrow> Some (wait_all_low_step lbl i clk (fst d))
      | STATE_SEQUENCE \<Rightarrow> Some (sequence_step lbl i clk (fst d))
      | STATE_SUCCESS \<Rightarrow> Some (success_step clk (fst d))
      | STATE_FAIL \<Rightarrow> fail_step lbl i clk (snd d) (fst d))"
proof -
  obtain a b where d: "debounce (t_now i) (t_btn i) s = (a, b)"
    by (cases "debounce (t_now i) (t_btn i) s")
  have "state a = state s" using state_debounce [of "t_now i" "t_btn i" s] d by simp
  then show ?thesis using assms d
    by (cases "state s") (simp_all add: master_loop_def serial_poll_def Let_def)
qed

lemma seq_at_debounce [simp]: "seq_at lbl k t0 (fst (debounce now b s)) = seq_at lbl k t0 s"
  by (simp add: seq_at_def)

lemma ctx_at_debounce [simp]: "ctx_at lbl st t0 (fst (debounce now b s)) = ctx_at lbl st t0 s"
  by (simp add: ctx_at_def)

subsection \<open>The Sequence stage on a clean pulse train\<close>

lemma seq_low_step:
  assumes at: "seq_at lbl k t0 s" and lv: "t_pins i = replicate (length lbl) LOW"
    and tm: "\<not> t_now i - t0 > SEQUENCE_TIMEOUT_MS"
  shows "sequence_step lbl i clk s = s\<lparr>pinWasHigh := replicate (length lbl) False\<rparr>"
proof -
  have "clear_low_loop (t_pins i) 0 (pinWasHigh s) = replicate (length lbl) False"
    using at lv by (auto simp: seq_at_def clear_low_loop_nth intro: nth_equalityI)
  with assms show ?thesis
    by (simp add: sequence_step_def seq_edge_def seq_timeout_def seq_at_def count_high_eq)
qed

lemma seq_first_high_step:
  assumes at: "seq_at lbl k t0 s" and lv: "t_pins i = only_high (length lbl) k"
    and k: "k < length lbl"
  shows "if Suc k = length lbl
         then state (sequence_step lbl i clk s) = STATE_SUCCESS \<and>
              expectedIndex (sequence_step lbl i clk s) = int (length lbl) \<and>
              out (sequence_step lbl i clk s) = out s @ [Tx (M_SEQ_OK (lbl ! k)), Tx M_SEQ_ALL_OK]
         else (\<not> t_now i - t0 > SEQUENCE_TIMEOUT_MS \<longrightarrow>
              seq_at lbl (Suc k) t0 (sequence_step lbl i clk s) \<and>
              pinWasHigh (sequence_step lbl i clk s) ! k \<and>
              out (sequence_step lbl i clk s) = out s @ [Tx (M_SEQ_OK (lbl ! k))])"
proof -
  have nw: "\<not> pinWasHigh s ! k" using at k by (auto simp: seq_at_def)
  show ?thesis
    using at k nw
    by (auto simp: lv only_high_def sequence_step_def seq_edge_def seq_timeout_def seq_at_def
                   count_high_single toState_def emit_def Let_def nth_list_update)
qed

lemma seq_repeat_high_step:
  assumes at: "seq_at lbl k t0 s" and lv: "t_pins i = only_high (length lbl) j"
    and j: "j < length lbl" and w: "pinWasHigh s ! j"
    and tm: "\<not> t_now i - t0 > SEQUENCE_TIMEOUT_MS"
  shows "sequence_step lbl i clk s = s"
  using assms
  by (simp add: only_high_def sequence_step_def seq_edge_def seq_timeout_def seq_at_def
                count_high_single)

lemma loop_seq_low:
  assumes at: "seq_at lbl k t0 s" and q: "t_cmd i = None"
    and lv: "t_pins i = replicate (length lbl) LOW" and tm: "\<not> t_now i - t0 > SEQUENCE_TIMEOUT_MS"
  shows "\<exists>s'. master_loop lbl i s = Some s' \<and> seq_at lbl k t0 s' \<and> out s' = out s"
proof -
  have m: "master_loop lbl i s = Some (sequence_step lbl i (t_now i) (fst (debounce (t_now i) (t_btn i) s)))"
    using at by (simp add: master_loop_quiet_debounce [OF q] seq_at_def)
  have "seq_at lbl k t0 (fst (debounce (t_now i) (t_btn i) s))" using at by simp
  from seq_low_step [OF this lv tm] at show ?thesis by (simp add: m seq_at_def)
qed

lemma loop_seq_repeat:
  assumes at: "seq_at lbl k t0 s" and q: "t_cmd i = None"
    and lv: "t_pins i = only_high (length lbl) j" and j: "j < length lbl" and w: "pinWasHigh s ! j"
    and tm: "\<not> t_now i - t0 > SEQUENCE_TIMEOUT_MS"
  shows "\<exists>s'. master_loop lbl i s = Some s' \<and> seq_at lbl k t0 s' \<and> pinWasHigh s' ! j \<and>
              out s' = out s"
proof -
  have m: "master_loop lbl i s = Some (sequence_step lbl i (t_now i) (fst (debounce (t_now i) (t_btn i) s)))"
    using at by (simp add: master_loop_quiet_debounce [OF q] seq_at_def)
  have "seq_at lbl k t0 (fst (debounce (t_now i) (t_btn i) s))" using at by simp
  from seq_repeat_high_step [OF this lv j _ tm] at w show ?thesis by (simp add: m)
qed

lemma loop_seq_first:
  assumes at: "seq_at lbl k t0 s" and q: "t_cmd i = None"
    and lv: "t_pins i = only_high (length lbl) k" and k: "k < length lbl"
  obtains s' where "master_loop lbl i s = Some s'"
    "Suc k = length lbl \<Longrightarrow> state s' = STATE_SUCCESS \<and> expectedIndex s' = int (length lbl) \<and>
        out s' = out s @ [Tx (M_SEQ_OK (lbl ! k)), Tx M_SEQ_ALL_OK]"
    "Suc k \<noteq> length lbl \<Longrightarrow> \<not> t_now i - t0 > SEQUENCE_TIMEOUT_MS \<Longrightarrow>
        seq_at lbl (Suc k) t0 s' \<and> pinWasHigh s' ! k \<and> out s' = out s @ [Tx (M_SEQ_OK (lbl ! k))]"
proof -
  have m: "master_loop lbl i s = Some (sequence_step lbl i (t_now i) (fst (debounce (t_now i) (t_btn i) s)))"
    using at by (simp add: master_loop_quiet_debounce [OF q] seq_at_def)
  have "seq_at lbl k t0 (fst (debounce (t_now i) (t_btn i) s))" using at by simp
  note f = seq_first_high_step [OF this lv k, of "t_now i"]
  show ?thesis
    by (rule that [OF m]) (use f in \<open>simp_all split: if_splits\<close>)
qed

lemma run_seq_lows:
  assumes "seq_at lbl k t0 s"
    and "\<forall>i\<in>set ts. t_cmd i = None \<and> t_pins i = replicate (length lbl) LOW \<and>
                    \<not> t_now i - t0 > SEQUENCE_TIMEOUT_MS"
  shows "\<exists>s'. run lbl ts s = Some s' \<and> seq_at lbl k t0 s' \<and> out s' = out s"
  using assms
proof (induction ts arbitrary: s)
  case Nil then show ?case by simp
next
  case (Cons i ts)
  then obtain s1 where "master_loop lbl i s = Some s1" "seq_at lbl k t0 s1" "out s1 = out s"
    using loop_seq_low by (metis list.set_intros(1))
  with Cons.IH [of s1] Cons.prems show ?case by auto
qed

lemma run_seq_repeats:
  assumes "seq_at lbl k t0 s" "j < length lbl" "pinWasHigh s ! j"
    and "\<forall>i\<in>set ts. t_cmd i = None \<and> t_pins i = only_high (length lbl) j \<and>
                    \<not> t_now i - t0 > SEQUENCE_TIMEOUT_MS"
  shows "\<exists>s'. run lbl ts s = Some s' \<and> seq_at lbl k t0 s' \<and> out s' = out s"
  using assms
proof (induction ts arbitrary: s)
  case Nil then show ?case by simp
next
  case (Cons i ts)
  then obtain s1 where "master_loop lbl i s = Some s1" "seq_at lbl k t0 s1" "pinWasHigh s1 ! j"
      "out s1 = out s"
    using loop_seq_repeat by (metis list.set_intros(1))
  with Cons.IH [of s1] Cons.prems show ?case by auto
qed

lemma run_seq_block:
  assumes at: "seq_at lbl k t0 s" and k: "Suc k < length lbl"
    and pins: "map t_pins ts = replicate l (replicate (length lbl) LOW) @
                               replicate (Suc h) (only_high (length lbl) k)"
    and ok: "\<forall>i\<in>set ts. t_cmd i = None \<and> \<not> t_now i - t0 > SEQUENCE_TIMEOUT_MS"
  shows "\<exists>s'. run lbl ts s = Some s' \<and> seq_at lbl (Suc k) t0 s' \<and>
              out s' = out s @ [Tx (M_SEQ_OK (lbl ! k))]"
proof -
  from pins obtain us i vs where ts: "ts = us @ i # vs"
    and u: "map t_pins us = replicate l (replicate (length lbl) LOW)"
    and i: "t_pins i = only_high (length lbl) k"
    and v: "map t_pins vs = replicate h (only_high (length lbl) k)"
    by (auto simp: map_eq_append_conv map_eq_Cons_conv)
  obtain s1 where r1: "run lbl us s = Some s1" "seq_at lbl k t0 s1" "out s1 = out s"
    using run_seq_lows [OF at, of us] u ok ts by (auto dest: map_eq_replicateD)
  have q: "t_cmd i = None" "\<not> t_now i - t0 > SEQUENCE_TIMEOUT_MS" using ok ts by auto
  obtain s2 where m: "master_loop lbl i s1 = Some s2"
    and s2: "seq_at lbl (Suc k) t0 s2" "pinWasHigh s2 ! k" "out s2 = out s1 @ [Tx (M_SEQ_OK (lbl ! k))]"
    by (rule loop_seq_first [OF r1(2) q(1) i]) (use k q(2) in auto)
  obtain s3 where r3: "run lbl vs s2 = Some s3" "seq_at lbl (Suc k) t0 s3" "out s3 = out s2"
    using run_seq_repeats [OF s2(1) _ s2(2), of vs] k v ok ts by (auto dest: map_eq_replicateD)
  show ?thesis using r1 m s2 r3 by (simp add: ts run_append)
qed

lemma run_seq_blocks:
  assumes at: "seq_at lbl 0 t0 s" and k: "k < length lbl"
    and pins: "map t_pins ts = concat (map (\<lambda>j. replicate (lo j) (replicate (length lbl) LOW) @
                                            replicate (hi j) (only_high (length lbl) j)) [0..<k])"
    and hi: "\<forall>j<k. 0 < hi j"
    and ok: "\<forall>i\<in>set ts. t_cmd i = None \<and> \<not> t_now i - t0 > SEQUENCE_TIMEOUT_MS"
  shows "\<exists>s'. run lbl ts s = Some s' \<and> seq_at lbl k t0 s' \<and>
              out s' = out s @ map (\<lambda>j. Tx (M_SEQ_OK (lbl ! j))) [0..<k]"
  using k pins hi ok
proof (induction k arbitrary: ts)
  case 0
  then show ?case using at by simp
next
  case (Suc k)
  obtain h where h: "hi k = Suc h" using Suc.prems(3) not0_implies_Suc by blast
  have "map t_pins ts = concat (map (\<lambda>j. replicate (lo j) (replicate (length lbl) LOW) @
                                   replicate (hi j) (only_high (length lbl) j)) [0..<k]) @
        (replicate (lo k) (replicate (length lbl) LOW) @ replicate (Suc h) (only_high (length lbl) k))"
    using Suc.prems(2) h by simp
  then obtain us vs where ts: "ts = us @ vs"
    and u: "map t_pins us = concat (map (\<lambda>j. replicate (lo j) (replicate (length lbl) LOW) @
                                       replicate (hi j) (only_high (length lbl) j)) [0..<k])"
    and v: "map t_pins vs = replicate (lo k) (replicate (length lbl) LOW) @
                            replicate (Suc h) (only_high (length lbl) k)"
    by (rule map_append_split)
  have oku: "\<forall>i\<in>set us. t_cmd i = None \<and> \<not> t_now i - t0 > SEQUENCE_TIMEOUT_MS"
    and okv: "\<forall>i\<in>set vs. t_cmd i = None \<and> \<not> t_now i - t0 > SEQUENCE_TIMEOUT_MS"
    using Suc.prems(4) unfolding ts by simp_all
  have k: "k < length lbl" and hk: "\<forall>j<k. 0 < hi j" using Suc.prems(1,3) by simp_all
  obtain s1 where r1: "run lbl us s = Some s1" "seq_at lbl k t0 s1"
      "out s1 = out s @ map (\<lambda>j. Tx (M_SEQ_OK (lbl ! j))) [0..<k]"
    using Suc.IH [OF k u hk oku] by blast
  obtain s2 where r2: "run lbl vs s1 = Some s2" "seq_at lbl (Suc k) t0 s2"
      "out s2 = out s1 @ [Tx (M_SEQ_OK (lbl ! k))]"
    using run_seq_block [OF r1(2) Suc.prems(1) v okv] by blast
  show ?case using r1 r2 by (simp add: ts run_append)
qed

lemma run_seq_success:
  assumes at: "seq_at lbl 0 t0 s" and ne: "lbl \<noteq> []"
    and pins: "map t_pins ts = clean_sequence (length lbl) lo hi"
    and hi: "\<forall>j < length lbl - 1. 0 < hi j"
    and ok: "\<forall>i\<in>set ts. t_cmd i = None \<and> \<not> t_now i - t0 > SEQUENCE_TIMEOUT_MS"
  shows "\<exists>s'. run lbl ts s = Some s' \<and> state s' = STATE_SUCCESS \<and>
              expectedIndex s' = int (length lbl) \<and>
              out s' = out s @ map (\<lambda>j. Tx (M_SEQ_OK (lbl ! j))) [0..<length lbl] @ [Tx M_SEQ_ALL_OK]"
proof -
  let ?n = "length lbl"
  have "map t_pins ts = concat (map (\<lambda>j. replicate (lo j) (replicate ?n LOW) @
                                   replicate (hi j) (only_high ?n j)) [0..<?n - 1]) @
        (replicate (lo (?n - 1)) (replicate ?n LOW) @ [only_high ?n (?n - 1)])"
    using pins by (simp add: clean_sequence_def)
  then obtain us ws where ts0: "ts = us @ ws"
    and u: "map t_pins us = concat (map (\<lambda>j. replicate (lo j) (replicate ?n LOW) @
                                       replicate (hi j) (only_high ?n j)) [0..<?n - 1])"
    and w: "map t_pins ws = replicate (lo (?n - 1)) (replicate ?n LOW) @ [only_high ?n (?n - 1)]"
    by (rule map_append_split)
  from w obtain vs ws1 where ws: "ws = vs @ ws1"
    and v: "map t_pins vs = replicate (lo (?n - 1)) (replicate ?n LOW)"
    and w1: "map t_pins ws1 = [only_high ?n (?n - 1)]"
    by (rule map_append_split)
  from w1 obtain i where ws1: "ws1 = [i]" and i: "t_pins i = only_high ?n (?n - 1)"
    by (auto simp: map_eq_Cons_conv)
  have ts: "ts = us @ vs @ [i]" using ts0 ws ws1 by simp
  have lt: "?n - 1 < ?n" using ne by simp
  have oku: "\<forall>i\<in>set us. t_cmd i = None \<and> \<not> t_now i - t0 > SEQUENCE_TIMEOUT_MS"
    and okv: "\<forall>i\<in>set vs. t_cmd i = None \<and> \<not> t_now i - t0 > SEQUENCE_TIMEOUT_MS"
    and q: "t_cmd i = None"
    using ok unfolding ts by simp_all
  obtain s1 where r1: "run lbl us s = Some s1" "seq_at lbl (?n - 1) t0 s1"
      "out s1 = out s @ map (\<lambda>j. Tx (M_SEQ_OK (lbl ! j))) [0..<?n - 1]"
    using run_seq_blocks [OF at lt u hi oku] by blast
  have "\<forall>i\<in>set vs. t_cmd i = None \<and> t_pins i = replicate ?n LOW \<and>
                   \<not> t_now i - t0 > SEQUENCE_TIMEOUT_MS"
    using okv map_eq_replicateD [OF v] by blast
  then obtain s2 where r2: "run lbl vs s1 = Some s2" "seq_at lbl (?n - 1) t0 s2" "out s2 = out s1"
    using run_seq_lows [OF r1(2)] by blast
  obtain s3 where m: "master_loop lbl i s2 = Some s3"
    and s3: "state s3 = STATE_SUCCESS" "expectedIndex s3 = int ?n"
            "out s3 = out s2 @ [Tx (M_SEQ_OK (lbl ! (?n - 1))), Tx M_SEQ_ALL_OK]"
    by (rule loop_seq_first [OF r2(2) q i lt]) (use ne in auto)
  have "[0..<?n] = [0..<?n - 1] @ [?n - 1]" using ne by (cases ?n) auto
  then show ?thesis using r1 r2 m s3 by (simp add: ts run_append)
qed

subsection \<open>The pending BEGIN line\<close>

lemma debounce_stage_begin:
  "debounce now b (stage_begin s) = apfst stage_begin (debounce now b s)"
  by (simp add: debounce_def stage_begin_def emit_def Let_def split: TestState.split)

lemma state_stage_begin [simp]: "state (stage_begin s) = state s"
  by (simp add: stage_begin_def emit_def split: TestState.split)

lemma stage_begin_other:
  "state s \<notin> {STATE_WAIT_ALL_HIGH, STATE_WAIT_ALL_LOW, STATE_SEQUENCE} \<Longrightarrow> stage_begin s = s"
  by (cases "state s") (simp_all add: stage_begin_def)

lemma wait_all_high_step_begin_norm:
  "state s = STATE_WAIT_ALL_HIGH \<Longrightarrow> wait_all_high_step lbl i clk (stage_begin s) = wait_all_high_step lbl i clk s"
  by (simp add: wait_all_high_step_def stage_begin_def Let_def)

lemma wait_all_low_step_begin_norm:
  "state s = STATE_WAIT_ALL_LOW \<Longrightarrow> wait_all_low_step lbl i clk (stage_begin s) = wait_all_low_step lbl i clk s"
  by (simp add: wait_all_low_step_def stage_begin_def Let_def)

lemma sequence_step_begin_norm:
  "state s = STATE_SEQUENCE \<Longrightarrow> sequence_step lbl i clk (stage_begin s) = sequence_step lbl i clk s"
  by (simp add: sequence_step_def stage_begin_def Let_def)

lemma loop_stage_begin:
  assumes q: "t_cmd i = None"
  shows "master_loop lbl i (stage_begin s) = master_loop lbl i s"
proof (cases "state s \<in> {STATE_WAIT_ALL_HIGH, STATE_WAIT_ALL_LOW, STATE_SEQUENCE}")
  case True
  then show ?thesis
    by (auto simp: master_loop_quiet_debounce [OF q] debounce_stage_begin
          wait_all_high_step_begin_norm wait_all_low_step_begin_norm sequence_step_begin_norm)
next
  case False
  then show ?thesis by (simp add: stage_begin_other)
qed

lemma run_stage_begin:
  "t_cmd i = None \<Longrightarrow> run lbl (i # ts) (stage_begin s) = run lbl (i # ts) s"
  by (simp add: loop_stage_begin)

lemma run_phase_begin:
  "t_cmd (hd (ws @ [w])) = None \<Longrightarrow> run lbl (ws @ [w]) (stage_begin s) = run lbl (ws @ [w]) s"
  by (cases ws) (simp_all only: append.simps list.sel run_stage_begin)

lemma ctx_at_stage_begin [simp]: "ctx_at lbl st t0 (stage_begin s) = ctx_at lbl st t0 s"
  by (simp add: ctx_at_def stage_begin_def emit_def split: TestState.split)

lemma stage_begin_out:
  "state s = STATE_WAIT_ALL_HIGH \<Longrightarrow> beginAllHighPrinted (stage_begin s) \<and>
     out (stage_begin s) = out s @ (if beginAllHighPrinted s then [] else [Tx M_ALL_HIGH_BEGIN])"
  "state s = STATE_WAIT_ALL_LOW \<Longrightarrow> beginAllLowPrinted (stage_begin s) \<and>
     out (stage_begin s) = out s @ (if beginAllLowPrinted s then [] else [Tx M_ALL_LOW_BEGIN])"
  "state s = STATE_SEQUENCE \<Longrightarrow> beginSequencePrinted (stage_begin s) \<and>
     out (stage_begin s) = out s @ (if beginSequencePrinted s then [] else [Tx M_SEQ_BEGIN])"
  by (simp_all add: stage_begin_def emit_def)

lemma seq_at_stage_begin:
  assumes "ctx_at lbl STATE_SEQUENCE t0 s"
  shows "seq_at lbl 0 t0 (stage_begin s) \<and>
         out (stage_begin s) = out s @ (if beginSequencePrinted s then [] else [Tx M_SEQ_BEGIN])"
  using assms stage_begin_out(3) [of s]
  by (simp add: ctx_at_def seq_at_def stage_begin_def emit_def)

subsection \<open>The two prechecks\<close>

lemma run_ah_waits:
  assumes "ctx_at lbl STATE_WAIT_ALL_HIGH t0 s" "beginAllHighPrinted s"
    and "\<forall>i\<in>set ts. t_cmd i = None \<and> \<not> all_at HIGH (t_pins i) \<and>
                    \<not> t_now i - t0 > PRECHECK_TIMEOUT_MS"
  shows "\<exists>s'. run lbl ts s = Some s' \<and> ctx_at lbl STATE_WAIT_ALL_HIGH t0 s' \<and>
              beginAllHighPrinted s' \<and> out s' = out s"
  using assms
proof (induction ts arbitrary: s)
  case Nil then show ?case by simp
next
  case (Cons i ts)
  let ?s1 = "fst (debounce (t_now i) (t_btn i) s)"
  have "master_loop lbl i s = Some ?s1"
    using Cons.prems
    by (simp add: master_loop_quiet_debounce ctx_at_def wait_all_high_step_def Let_def)
  moreover have "ctx_at lbl STATE_WAIT_ALL_HIGH t0 ?s1" "beginAllHighPrinted ?s1" "out ?s1 = out s"
    using Cons.prems by simp_all
  ultimately show ?case using Cons.IH [of ?s1] Cons.prems by auto
qed

lemma run_al_waits:
  assumes "ctx_at lbl STATE_WAIT_ALL_LOW t0 s" "beginAllLowPrinted s"
    and "\<forall>i\<in>set ts. t_cmd i = None \<and> \<not> all_at LOW (t_pins i) \<and>
                    \<not> t_now i - t0 > LOW_STAGE_TIMEOUT_MS"
  shows "\<exists>s'. run lbl ts s = Some s' \<and> ctx_at lbl STATE_WAIT_ALL_LOW t0 s' \<and>
              beginAllLowPrinted s' \<and> out s' = out s"
  using assms
proof (induction ts arbitrary: s)
  case Nil then show ?case by simp
next
  case (Cons i ts)
  let ?s1 = "fst (debounce (t_now i) (t_btn i) s)"
  have "master_loop lbl i s = Some ?s1"
    using Cons.prems
    by (simp add: master_loop_quiet_debounce ctx_at_def wait_all_low_step_def Let_def)
  moreover have "ctx_at lbl STATE_WAIT_ALL_LOW t0 ?s1" "beginAllLowPrinted ?s1" "out ?s1 = out s"
    using Cons.prems by simp_all
  ultimately show ?case using Cons.IH [of ?s1] Cons.prems by auto
qed

lemma loop_ah_pass:
  assumes "ctx_at lbl STATE_WAIT_ALL_HIGH t0 s" "beginAllHighPrinted s"
    and "t_cmd i = None" "all_at HIGH (t_pins i)"
  shows "\<exists>s'. master_loop lbl i s = Some s' \<and> ctx_at lbl STATE_WAIT_ALL_LOW (t_now i) s' \<and>
              \<not> beginAllLowPrinted s' \<and> out s' = out s @ [Tx M_ALL_HIGH_OK]"
  using assms
  by (simp add: master_loop_quiet_debounce ctx_at_def wait_all_high_step_def toState_def emit_def
                Let_def)

lemma loop_al_pass:
  assumes "ctx_at lbl STATE_WAIT_ALL_LOW t0 s" "beginAllLowPrinted s"
    and "t_cmd i = None" "all_at LOW (t_pins i)"
  shows "\<exists>s'. master_loop lbl i s = Some s' \<and> ctx_at lbl STATE_SEQUENCE (t_now i) s' \<and>
              \<not> beginSequencePrinted s' \<and> out s' = out s @ [Tx M_ALL_LOW_OK]"
  using assms
  by (simp add: master_loop_quiet_debounce ctx_at_def wait_all_low_step_def toState_def emit_def
                Let_def)

lemma run_ah_phase:
  assumes ctx: "ctx_at lbl STATE_WAIT_ALL_HIGH t0 s"
    and ah: "\<forall>i\<in>set ah. t_cmd i = None \<and> \<not> all_at HIGH (t_pins i) \<and>
                      \<not> t_now i - t0 > PRECHECK_TIMEOUT_MS"
    and h: "t_cmd h = None" "all_at HIGH (t_pins h)"
  shows "\<exists>s'. run lbl (ah @ [h]) s = Some s' \<and> ctx_at lbl STATE_WAIT_ALL_LOW (t_now h) s' \<and>
              \<not> beginAllLowPrinted s' \<and>
              out s' = out s @ (if beginAllHighPrinted s then [] else [Tx M_ALL_HIGH_BEGIN]) @
                       [Tx M_ALL_HIGH_OK]"
proof -
  have hd: "t_cmd (hd (ah @ [h])) = None" using ah h by (cases ah) auto
  have st: "state s = STATE_WAIT_ALL_HIGH" using ctx by (simp add: ctx_at_def)
  obtain s1 where r1: "run lbl ah (stage_begin s) = Some s1"
      "ctx_at lbl STATE_WAIT_ALL_HIGH t0 s1" "beginAllHighPrinted s1" "out s1 = out (stage_begin s)"
    using run_ah_waits [of lbl t0 "stage_begin s" ah] ctx ah stage_begin_out(1) [OF st] by auto
  obtain s2 where "master_loop lbl h s1 = Some s2" "ctx_at lbl STATE_WAIT_ALL_LOW (t_now h) s2"
      "\<not> beginAllLowPrinted s2" "out s2 = out s1 @ [Tx M_ALL_HIGH_OK]"
    using loop_ah_pass [OF r1(2,3) h] by blast
  moreover have "run lbl (ah @ [h]) s = run lbl (ah @ [h]) (stage_begin s)"
    by (rule run_phase_begin [OF hd, symmetric])
  ultimately show ?thesis
    using r1 stage_begin_out(1) [OF st] by (simp add: run_append)
qed

lemma run_al_phase:
  assumes ctx: "ctx_at lbl STATE_WAIT_ALL_LOW t0 s"
    and al: "\<forall>i\<in>set al. t_cmd i = None \<and> \<not> all_at LOW (t_pins i) \<and>
                      \<not> t_now i - t0 > LOW_STAGE_TIMEOUT_MS"
    and l: "t_cmd l = None" "all_at LOW (t_pins l)"
  shows "\<exists>s'. run lbl (al @ [l]) s = Some s' \<and> ctx_at lbl STATE_SEQUENCE (t_now l) s' \<and>
              \<not> beginSequencePrinted s' \<and>
              out s' = out s @ (if beginAllLowPrinted s then [] else [Tx M_ALL_LOW_BEGIN]) @
                       [Tx M_ALL_LOW_OK]"
proof -
  have hd: "t_cmd (hd (al @ [l])) = None" using al l by (cases al) auto
  have st: "state s = STATE_WAIT_ALL_LOW" using ctx by (simp add: ctx_at_def)
  obtain s1 where r1: "run lbl al (stage_begin s) = Some s1"
      "ctx_at lbl STATE_WAIT_ALL_LOW t0 s1" "beginAllLowPrinted s1" "out s1 = out (stage_begin s)"
    using run_al_waits [of lbl t0 "stage_begin s" al] ctx al stage_begin_out(2) [OF st] by auto
  obtain s2 where "master_loop lbl l s1 = Some s2" "ctx_at lbl STATE_SEQUENCE (t_now l) s2"
      "\<not> beginSequencePrinted s2" "out s2 = out s1 @ [Tx M_ALL_LOW_OK]"
    using loop_al_pass [OF r1(2,3) l] by blast
  moreover have "run lbl (al @ [l]) s = run lbl (al @ [l]) (stage_begin s)"
    by (rule run_phase_begin [OF hd, symmetric])
  ultimately show ?thesis
    using r1 stage_begin_out(2) [OF st] by (simp add: run_append)
qed

subsection \<open>A clean run\<close>

text \<open>The phases composed: from an activation to Success.\<close>

lemma clean_run:
  assumes fr: "fresh_run lbl s" and ne: "lbl \<noteq> []"
    and ah: "\<forall>i\<in>set ah. t_cmd i = None \<and> \<not> all_at HIGH (t_pins i) \<and>
                      \<not> t_now i - stateStartMs s > PRECHECK_TIMEOUT_MS"
    and h: "t_cmd h = None" "all_at HIGH (t_pins h)"
    and al: "\<forall>i\<in>set al. t_cmd i = None \<and> \<not> all_at LOW (t_pins i) \<and>
                      \<not> t_now i - t_now h > LOW_STAGE_TIMEOUT_MS"
    and l: "t_cmd l = None" "all_at LOW (t_pins l)"
    and sq: "map t_pins sq = clean_sequence (length lbl) lo hi" "\<forall>j < length lbl - 1. 0 < hi j"
            "\<forall>i\<in>set sq. t_cmd i = None \<and> \<not> t_now i - t_now l > SEQUENCE_TIMEOUT_MS"
  shows "\<exists>s'. run lbl (ah @ [h] @ al @ [l] @ sq) s = Some s' \<and> state s' = STATE_SUCCESS \<and>
              expectedIndex s' = int (length lbl) \<and>
              out s' = out s @ map Tx ([M_ALL_HIGH_BEGIN, M_ALL_HIGH_OK, M_ALL_LOW_BEGIN, M_ALL_LOW_OK,
                                       M_SEQ_BEGIN] @ map (\<lambda>j. M_SEQ_OK (lbl ! j)) [0..<length lbl] @
                                      [M_SEQ_ALL_OK])"
proof -
  have ctx: "ctx_at lbl STATE_WAIT_ALL_HIGH (stateStartMs s) s" and nb: "\<not> beginAllHighPrinted s"
    using fr by (simp_all add: fresh_run_def ctx_at_def)
  obtain s1 where r1: "run lbl (ah @ [h]) s = Some s1" "ctx_at lbl STATE_WAIT_ALL_LOW (t_now h) s1"
      "\<not> beginAllLowPrinted s1" "out s1 = out s @ [Tx M_ALL_HIGH_BEGIN, Tx M_ALL_HIGH_OK]"
    using run_ah_phase [OF ctx ah h] nb by auto
  obtain s2 where r2: "run lbl (al @ [l]) s1 = Some s2" "ctx_at lbl STATE_SEQUENCE (t_now l) s2"
      "\<not> beginSequencePrinted s2" "out s2 = out s1 @ [Tx M_ALL_LOW_BEGIN, Tx M_ALL_LOW_OK]"
    using run_al_phase [OF r1(2) al l] r1(3) by auto
  obtain q qs where sqc: "sq = q # qs"
    using sq(1) by (cases sq) (simp_all add: clean_sequence_def)
  have q: "t_cmd q = None" using sq(3) sqc by simp
  have sb: "seq_at lbl 0 (t_now l) (stage_begin s2)" "out (stage_begin s2) = out s2 @ [Tx M_SEQ_BEGIN]"
    using seq_at_stage_begin [OF r2(2)] r2(3) by (simp_all add: ctx_at_def)
  obtain s3 where r3: "run lbl sq (stage_begin s2) = Some s3" "state s3 = STATE_SUCCESS"
      "expectedIndex s3 = int (length lbl)"
      "out s3 = out (stage_begin s2) @ map (\<lambda>j. Tx (M_SEQ_OK (lbl ! j))) [0..<length lbl] @
                [Tx M_SEQ_ALL_OK]"
    using run_seq_success [OF sb(1) ne sq] by blast
  have r3': "run lbl sq s2 = Some s3" using r3(1) run_stage_begin [OF q] sqc by simp
  have "run lbl ((ah @ [h]) @ (al @ [l]) @ sq) s = Some s3"
    by (simp only: run_append [of lbl "ah @ [h]"] run_append [of lbl "al @ [l]"] r1(1) r2(1) r3'
                   option.case)
  then show ?thesis using r1 r2 r3 sb by simp
qed

text \<open>C1: a clean run reaches Success.  From the state in which an activation
  leaves the Master (\<open>fresh_run\<close>), iterations with no serial command that
  see: some snapshots that are not all high within the precheck window, one
  all-high snapshot, some snapshots that are not all low within the window,
  one all-low snapshot, and then the Target's pulse train (each line in roster
  order pulsed high alone, sampled at least once, with any number of all-low
  snapshots between pulses) within the 15000 ms budget, bring the Master to
  Success with the cursor at \<open>N\<close>; the status lines it prints on the way are
  exactly the BEGIN and OK lines of the three stages, one OK line per roster
  line in roster order, and a single ALL OK line.\<close>

theorem clean_run_success:
  assumes fr: "fresh_run lbl s" and ne: "lbl \<noteq> []"
    and ah: "\<forall>i\<in>set ah. t_cmd i = None \<and> \<not> all_at HIGH (t_pins i) \<and>
                      \<not> t_now i - stateStartMs s > PRECHECK_TIMEOUT_MS"
    and h: "t_cmd h = None" "all_at HIGH (t_pins h)"
    and al: "\<forall>i\<in>set al. t_cmd i = None \<and> \<not> all_at LOW (t_pins i) \<and>
                      \<not> t_now i - t_now h > LOW_STAGE_TIMEOUT_MS"
    and l: "t_cmd l = None" "all_at LOW (t_pins l)"
    and sq: "map t_pins sq = clean_sequence (length lbl) lo hi" "\<forall>j < length lbl - 1. 0 < hi j"
            "\<forall>i\<in>set sq. t_cmd i = None \<and> \<not> t_now i - t_now l > SEQUENCE_TIMEOUT_MS"
  shows "\<exists>s'. run lbl (ah @ [h] @ al @ [l] @ sq) s = Some s' \<and> state s' = STATE_SUCCESS \<and>
              expectedIndex s' = int (length lbl) \<and>
              out s' = out s @ map Tx ([M_ALL_HIGH_BEGIN, M_ALL_HIGH_OK, M_ALL_LOW_BEGIN, M_ALL_LOW_OK,
                                       M_SEQ_BEGIN] @ map (\<lambda>j. M_SEQ_OK (lbl ! j)) [0..<length lbl] @
                                      [M_SEQ_ALL_OK])"
  using clean_run [OF fr ne ah h al l sq] .

theorem clean_run_success_witness:
  "\<exists>s'. run TEST_LABELS clean_demo_ticks ((master_setup TEST_LABELS 0)\<lparr>state := STATE_WAIT_ALL_HIGH\<rparr>)
          = Some s' \<and> state s' = STATE_SUCCESS \<and> expectedIndex s' = 19 \<and>
        out s' = [Reset_write HIGH 0, Tx M_READY] @
                 map Tx ([M_ALL_HIGH_BEGIN, M_ALL_HIGH_OK, M_ALL_LOW_BEGIN, M_ALL_LOW_OK, M_SEQ_BEGIN] @
                         map (\<lambda>j. M_SEQ_OK (TEST_LABELS ! j)) [0..<19] @ [M_SEQ_ALL_OK])"
proof -
  let ?s = "(master_setup TEST_LABELS 0)\<lparr>state := STATE_WAIT_ALL_HIGH\<rparr>"
  have len: "length TEST_LABELS = 19" by (simp add: TEST_LABELS_def)
  have fr: "fresh_run TEST_LABELS ?s" by (simp add: fresh_run_def master_setup_def)
  have ne: "TEST_LABELS \<noteq> []" using len by auto
  have hi: "all_at HIGH (t_pins (quiet_tick 1000 (replicate 19 HIGH)))"
       "\<not> all_at LOW (t_pins (quiet_tick 1500 (replicate 19 HIGH)))"
       "all_at LOW (t_pins (quiet_tick 2000 (replicate 19 LOW)))"
    by code_simp+
  have sq: "map t_pins (map (quiet_tick 2100) (clean_sequence 19 (\<lambda>_. 1) (\<lambda>_. 1))) =
              clean_sequence (length TEST_LABELS) (\<lambda>_. 1) (\<lambda>_. 1)"
    by (simp add: len quiet_tick_def comp_def)
  have tm: "\<forall>i\<in>set (map (quiet_tick 2100) (clean_sequence 19 (\<lambda>_. 1) (\<lambda>_. 1))).
              t_cmd i = None \<and> \<not> t_now i - t_now (quiet_tick 2000 (replicate 19 LOW)) > SEQUENCE_TIMEOUT_MS"
    by (simp add: quiet_tick_def SEQUENCE_TIMEOUT_MS_def)
  have "\<forall>i\<in>set [quiet_tick 1500 (replicate 19 HIGH)]. t_cmd i = None \<and> \<not> all_at LOW (t_pins i) \<and>
          \<not> t_now i - t_now (quiet_tick 1000 (replicate 19 HIGH)) > LOW_STAGE_TIMEOUT_MS"
    using hi(2) by (simp add: quiet_tick_def LOW_STAGE_TIMEOUT_MS_def)
  from clean_run_success [OF fr ne _ _ hi(1) this _ hi(3) sq _ tm, of "[]"]
  show ?thesis
    by (simp add: clean_demo_ticks_def len quiet_tick_def master_setup_def)
qed

end
