(* ===== verification/Target.thy ===== *)
theory Target
  imports Serial_Wait
begin

text \<open>
  The Stimulus Driver: the Target firmware, \<open>main.cpp\<close> lines 1--110.  Its
  \<open>setup()\<close> runs a fixed script once: wait for the serial port, announce
  itself, drive every roster line low, then all high for
  \<open>HOLD_ALL_HIGH_MS\<close>, all low for \<open>HOLD_ALL_LOW_MS\<close>, and pulse each line
  in roster order; \<open>loop()\<close> then prints an idle line forever.  The model is
  the script's timed event list (\<open>target_setup\<close>).  \<open>pin_level\<close> reads an
  event list as the levels of the pins over time, and the refinement theorem
  shows that these levels are the abstract \<open>stimulus\<close> of the specification.
\<close>

text \<open>Pins and timings, lines 13--44.  Pins are named as in the source; the
  first roster line is the power-control pin \<open>VCC_CTRL_PIN\<close>.\<close>

definition VCC_CTRL_PIN :: string where "VCC_CTRL_PIN = ''P0_13''"
definition LED_STATUS_PIN :: string where "LED_STATUS_PIN = ''P0_15''"

definition TARGET_TEST_PINS :: "string list" where
  "TARGET_TEST_PINS =
     [VCC_CTRL_PIN, ''P0_31'', ''P0_29'', ''P0_02'', ''P1_15'', ''P1_13'', ''P1_11'', ''P0_10'',
      ''P0_09'', ''P1_06'', ''P1_04'', ''P0_11'', ''P1_00'', ''P0_24'', ''P0_22'', ''P0_20'',
      ''P0_17'', ''P0_08'', ''P0_06'']"

definition TARGET_NUM_TEST_PINS :: nat where "TARGET_NUM_TEST_PINS = length TARGET_TEST_PINS"

definition HOLD_ALL_HIGH_MS :: u32 where "HOLD_ALL_HIGH_MS = 1000"
definition HOLD_ALL_LOW_MS :: u32 where "HOLD_ALL_LOW_MS = 1000"
definition SEQ_HIGH_MS :: u32 where "SEQ_HIGH_MS = 150"
definition SEQ_LOW_MS :: u32 where "SEQ_LOW_MS = 150"

text \<open>The Target's status lines (lines 66--109) and their bytes.\<close>

datatype tmarker =
    T_READY
  | T_ALL_HIGH_BEGIN
  | T_ALL_HIGH_OK
  | T_ALL_LOW_BEGIN
  | T_ALL_LOW_OK
  | T_SEQ_BEGIN
  | T_SEQ_ALL_OK
  | T_IDLE

primrec tmarker_text :: "tmarker \<Rightarrow> string" where
  "tmarker_text T_READY = ''Target: READY'' @ CRLF"
| "tmarker_text T_ALL_HIGH_BEGIN = ''Target: STAGE '' @ em_dash @ '' ALL_HIGH: BEGIN'' @ CRLF"
| "tmarker_text T_ALL_HIGH_OK = ''Target: STAGE '' @ em_dash @ '' ALL_HIGH: OK'' @ CRLF"
| "tmarker_text T_ALL_LOW_BEGIN = ''Target: STAGE '' @ em_dash @ '' ALL_LOW: BEGIN'' @ CRLF"
| "tmarker_text T_ALL_LOW_OK = ''Target: STAGE '' @ em_dash @ '' ALL_LOW: OK'' @ CRLF"
| "tmarker_text T_SEQ_BEGIN = ''Target: STAGE '' @ em_dash @ '' SEQUENCE: BEGIN'' @ CRLF"
| "tmarker_text T_SEQ_ALL_OK = ''Target: STAGE '' @ em_dash @ '' SEQUENCE: ALL OK'' @ CRLF"
| "tmarker_text T_IDLE = ''Target: STAGE '' @ em_dash @ '' IDLE: OK'' @ CRLF"

text \<open>An effect of the Target on the outside world, stamped with \<open>millis()\<close>:
  a status line, or a \<open>digitalWrite\<close> of a level to a named pin.\<close>

datatype tevent =
    T_Tx tmarker u32
  | Write string bool u32

text \<open>\<open>setAll\<close>, lines 50--54.\<close>

definition setAll :: "bool \<Rightarrow> u32 \<Rightarrow> tevent list" where
  "setAll level t = map (\<lambda>i. Write (TARGET_TEST_PINS ! i) level t) [0..<TARGET_NUM_TEST_PINS]"

text \<open>The per-pin loop of stage 3, lines 95--100, over the roster in order,
  threading the clock through its two delays.\<close>

fun seq_pulses :: "string list \<Rightarrow> u32 \<Rightarrow> tevent list \<times> u32" where
  "seq_pulses [] t = ([], t)"
| "seq_pulses (p # ps) t =
     (let (es, t') = seq_pulses ps (t + SEQ_HIGH_MS + SEQ_LOW_MS)
      in (Write p HIGH t # Write p LOW (t + SEQ_HIGH_MS) # es, t'))"

text \<open>\<open>setup()\<close> after the serial wait, lines 66--101: the events and the
  clock when it returns.  \<open>pinMode\<close> calls have no observable effect of
  their own; every \<open>Serial\<close> and \<open>digitalWrite\<close> call takes no time.\<close>

definition target_script :: "u32 \<Rightarrow> tevent list \<times> u32" where
  "target_script t1 =
     (let init = [T_Tx T_READY t1, Write LED_STATUS_PIN LOW t1, Write VCC_CTRL_PIN LOW t1] @
                 map (\<lambda>i. Write (TARGET_TEST_PINS ! i) LOW t1) [0..<TARGET_NUM_TEST_PINS];
          high = [T_Tx T_ALL_HIGH_BEGIN t1] @ setAll HIGH t1 @ [Write LED_STATUS_PIN HIGH t1];
          t2 = t1 + HOLD_ALL_HIGH_MS;
          low = [T_Tx T_ALL_HIGH_OK t2, T_Tx T_ALL_LOW_BEGIN t2] @ setAll LOW t2 @
                [Write LED_STATUS_PIN LOW t2];
          t3 = t2 + HOLD_ALL_LOW_MS;
          (pulses, t4) = seq_pulses TARGET_TEST_PINS t3
      in (init @ high @ low @ [T_Tx T_ALL_LOW_OK t3, T_Tx T_SEQ_BEGIN t3] @ pulses @
          [T_Tx T_SEQ_ALL_OK t4], t4))"

text \<open>\<open>setup()\<close>, lines 60--102: the serial wait, then the script.\<close>

definition target_setup :: "(u32 \<Rightarrow> bool) \<Rightarrow> u32 \<Rightarrow> tevent list \<times> u32" where
  "target_setup ready t0 = target_script (serial_wait ready t0 t0)"

text \<open>\<open>loop()\<close>, lines 108--110: one idle line per call.\<close>

definition target_loop :: "u32 \<Rightarrow> tevent list" where
  "target_loop t = [T_Tx T_IDLE t]"

text \<open>The electrical meaning of an event list: the level of pin \<open>p\<close> at
  time \<open>t\<close> is the one of the last write to \<open>p\<close> stamped at or before
  \<open>t\<close> (\<open>None\<close>: never driven), and \<open>target_lines\<close> reads the roster.\<close>

fun pin_level :: "tevent list \<Rightarrow> string \<Rightarrow> nat \<Rightarrow> bool option" where
  "pin_level [] p t = None"
| "pin_level (T_Tx m \<tau> # es) p t = pin_level es p t"
| "pin_level (Write q b \<tau> # es) p t =
     (case pin_level es p t of
        Some b' \<Rightarrow> Some b'
      | None \<Rightarrow> if q = p \<and> unat \<tau> \<le> t then Some b else None)"

definition target_lines :: "tevent list \<Rightarrow> nat \<Rightarrow> bool list" where
  "target_lines es t = map (\<lambda>p. pin_level es p t = Some HIGH) TARGET_TEST_PINS"

text \<open>The stimulus the specification asks of the Target (section 4.1), from
  the time \<open>T\<close> it starts driving: all lines high for 1000 ms, all low for
  1000 ms, then each line of \<open>n\<close> in roster order high alone for 150 ms
  followed by 150 ms low, and low from then on.\<close>

definition stimulus :: "nat \<Rightarrow> nat \<Rightarrow> nat \<Rightarrow> bool list" where
  "stimulus n T t =
     (if t < T + 1000 then replicate n HIGH
      else if t < T + 2000 then replicate n LOW
      else let d = t - (T + 2000) in
           if d < 300 * n \<and> d mod 300 < 150 then (replicate n LOW)[d div 300 := HIGH]
           else replicate n LOW)"

text \<open>The writes to one pin, in order, with their levels and times.\<close>

fun writes :: "tevent list \<Rightarrow> string \<Rightarrow> (bool \<times> u32) list" where
  "writes [] p = []"
| "writes (T_Tx m \<tau> # es) p = writes es p"
| "writes (Write q b \<tau> # es) p = (if q = p then [(b, \<tau>)] else []) @ writes es p"

lemma writes_append [simp]: "writes (xs @ ys) p = writes xs p @ writes ys p"
  by (induction xs p rule: writes.induct) simp_all

lemma pin_level_writes:
  "pin_level es p t =
     (if filter (\<lambda>(b, \<tau>). unat \<tau> \<le> t) (writes es p) = [] then None
      else Some (fst (last (filter (\<lambda>(b, \<tau>). unat \<tau> \<le> t) (writes es p)))))"
  by (induction es p t rule: pin_level.induct) (auto split: option.split)

lemma distinct_TARGET_TEST_PINS: "distinct TARGET_TEST_PINS"
  by (simp add: TARGET_TEST_PINS_def VCC_CTRL_PIN_def)

lemma LED_not_test_pin: "LED_STATUS_PIN \<notin> set TARGET_TEST_PINS"
  by (simp add: TARGET_TEST_PINS_def VCC_CTRL_PIN_def LED_STATUS_PIN_def)

lemma writes_map_pins:
  assumes "distinct P" "j < length P"
  shows "writes (map (\<lambda>i. Write (P ! i) b \<tau>) [0..<length P]) (P ! j) = [(b, \<tau>)]"
proof -
  have "writes (map (\<lambda>i. Write (P ! i) b \<tau>) xs) (P ! j) =
          map (\<lambda>i. (b, \<tau>)) (filter (\<lambda>i. P ! i = P ! j) xs)" for xs
    by (induction xs) auto
  moreover have "filter (\<lambda>i. P ! i = P ! j) [0..<length P] = filter (\<lambda>i. i = j) [0..<length P]"
    using assms by (intro filter_cong) (auto simp: nth_eq_iff_index_eq)
  moreover have "filter (\<lambda>i. i = j) [0..<n] = (if j < n then [j] else [])" for n
    by (induction n) auto
  ultimately show ?thesis using assms(2) by simp
qed

lemma seq_pulses_writes:
  assumes "distinct P" "j < length P"
  shows "writes (fst (seq_pulses P \<tau>)) (P ! j) =
           [(HIGH, \<tau> + of_nat (300 * j)), (LOW, \<tau> + of_nat (300 * j) + 150)]"
  using assms
proof (induction P arbitrary: \<tau> j)
  case Nil then show ?case by simp
next
  case (Cons p ps)
  have none: "writes (fst (seq_pulses ps \<tau>')) q = []" if "q \<notin> set ps" for q \<tau>'
    using that by (induction ps arbitrary: \<tau>') (auto simp: split_def Let_def)
  show ?case
  proof (cases j)
    case 0
    with Cons.prems show ?thesis
      by (simp add: split_def Let_def none SEQ_HIGH_MS_def)
  next
    case (Suc j')
    with Cons.prems have "ps ! j' \<noteq> p" "j' < length ps" "distinct ps"
      by (auto simp: nth_mem)
    with Cons.IH [of j' "\<tau> + SEQ_HIGH_MS + SEQ_LOW_MS"] Suc show ?thesis
      by (simp add: split_def Let_def SEQ_HIGH_MS_def SEQ_LOW_MS_def algebra_simps)
  qed
qed

lemma writes_script:
  assumes j: "j < TARGET_NUM_TEST_PINS"
  shows "writes (fst (target_script t1)) (TARGET_TEST_PINS ! j) =
           (if j = 0 then [(LOW, t1)] else []) @
           [(LOW, t1), (HIGH, t1), (LOW, t1 + 1000), (HIGH, t1 + 2000 + of_nat (300 * j)),
            (LOW, t1 + 2000 + of_nat (300 * j) + 150)]"
proof -
  have d: "distinct TARGET_TEST_PINS" and jl: "j < length TARGET_TEST_PINS"
    using j distinct_TARGET_TEST_PINS by (simp_all add: TARGET_NUM_TEST_PINS_def)
  have led: "LED_STATUS_PIN \<noteq> TARGET_TEST_PINS ! j" using LED_not_test_pin jl nth_mem by metis
  have v0: "VCC_CTRL_PIN = TARGET_TEST_PINS ! 0" by (simp add: TARGET_TEST_PINS_def)
  have vcc: "(VCC_CTRL_PIN = TARGET_TEST_PINS ! j) = (j = 0)"
  proof -
    have "0 < length TARGET_TEST_PINS" using jl by (rule le_less_trans [OF le0])
    from nth_eq_iff_index_eq [OF d this jl] show ?thesis unfolding v0 by auto
  qed
  have sp: "writes (fst (seq_pulses TARGET_TEST_PINS (t1 + 1000 + 1000))) (TARGET_TEST_PINS ! j) =
              [(HIGH, t1 + 2000 + of_nat (300 * j)), (LOW, t1 + 2000 + of_nat (300 * j) + 150)]"
    using seq_pulses_writes [OF d jl] by simp
  show ?thesis
    using writes_map_pins [OF d jl] led vcc sp
    by (simp add: target_script_def setAll_def Let_def split_def HOLD_ALL_HIGH_MS_def
                  HOLD_ALL_LOW_MS_def TARGET_NUM_TEST_PINS_def)
qed

lemma unat_plus_nat:
  assumes "unat t + k < 2 ^ 32"
  shows "unat (t + word_of_nat k :: u32) = unat t + k"
proof -
  have k: "unat (word_of_nat k :: u32) = k" using assms by (simp add: unat_of_nat)
  with assms have "unat t + unat (word_of_nat k :: u32) < 2 ^ LENGTH(32)" by simp
  then show ?thesis using k by (simp add: iffD1 [OF unat_add_lem])
qed

lemma pin_level_script:
  assumes j: "j < TARGET_NUM_TEST_PINS" and nw: "unat t1 + 7700 < 2 ^ 32" and t: "unat t1 \<le> t"
  shows "pin_level (fst (target_script t1)) (TARGET_TEST_PINS ! j) t =
           Some (t < unat t1 + 1000 \<or>
                 (unat t1 + 2000 + 300 * j \<le> t \<and> t < unat t1 + 2150 + 300 * j))"
proof -
  have j19: "j < 19" using j by (simp add: TARGET_NUM_TEST_PINS_def TARGET_TEST_PINS_def)
  have u1: "unat (t1 + 1000) = unat t1 + 1000"
    using unat_plus_nat [of t1 1000] nw by simp
  have "unat (t1 + word_of_nat (2000 + 300 * j)) = unat t1 + 2000 + 300 * j"
    using unat_plus_nat [of t1 "2000 + 300 * j"] nw j19 by simp
  then have u2: "unat (t1 + 2000 + word_of_nat (300 * j)) = unat t1 + 2000 + 300 * j"
    by (simp add: add.assoc)
  have "unat (t1 + word_of_nat (2150 + 300 * j)) = unat t1 + 2150 + 300 * j"
    using unat_plus_nat [of t1 "2150 + 300 * j"] nw j19 by simp
  then have u3: "unat (t1 + 2000 + word_of_nat (300 * j) + 150) = unat t1 + 2150 + 300 * j"
    by (simp add: algebra_simps)
  show ?thesis
    unfolding pin_level_writes writes_script [OF j] filter_append filter.simps prod.case u1 u2 u3
    using t by simp
qed

lemma pulse_window:
  "(d div 300 = j \<and> d mod 300 < 150) \<longleftrightarrow> (300 * j \<le> d \<and> d < 300 * j + (150 :: nat))"
proof
  assume "d div 300 = j \<and> d mod 300 < 150"
  moreover have "d = 300 * (d div 300) + d mod 300" by simp
  ultimately show "300 * j \<le> d \<and> d < 300 * j + 150" by linarith
next
  assume a: "300 * j \<le> d \<and> d < 300 * j + 150"
  then obtain r where d: "d = 300 * j + r" "r < 150" by (metis add_less_cancel_left le_Suc_ex)
  then show "d div 300 = j \<and> d mod 300 < 150" by simp
qed

lemma stimulus_nth:
  assumes "j < n" "T \<le> t"
  shows "stimulus n T t ! j =
           (t < T + 1000 \<or> (T + 2000 + 300 * j \<le> t \<and> t < T + 2150 + 300 * j))"
proof -
  consider "t < T + 1000" | "T + 1000 \<le> t" "t < T + 2000" | "T + 2000 \<le> t" by linarith
  then show ?thesis
  proof cases
    case 3
    define d where "d = t - (T + 2000)"
    have "(d < 300 * n \<and> d mod 300 < 150 \<and> d div 300 = j) \<longleftrightarrow>
          (300 * j \<le> d \<and> d < 300 * j + 150)"
      using pulse_window [of d j] assms(1) by auto
    moreover have "(300 * j \<le> d \<and> d < 300 * j + 150) \<longleftrightarrow>
                   (T + 2000 + 300 * j \<le> t \<and> t < T + 2150 + 300 * j)"
      using 3 unfolding d_def by linarith
    ultimately show ?thesis
      using 3 assms(1) by (auto simp: stimulus_def d_def [symmetric] Let_def nth_list_update)
  qed (use assms in \<open>simp_all add: stimulus_def\<close>)
qed

lemma target_lines_stimulus:
  assumes nw: "unat t0 + 10700 < 2 ^ 32" and t: "unat (serial_wait ready t0 t0) \<le> t"
  shows "target_lines (fst (target_setup ready t0)) t =
           stimulus TARGET_NUM_TEST_PINS (unat (serial_wait ready t0 t0)) t"
proof -
  let ?t1 = "serial_wait ready t0 t0"
  have "unat (?t1 - t0) \<le> 3000" using serial_wait_bound [of t0 t0 ready] by simp
  then have "unat t0 + unat (?t1 - t0) < 2 ^ LENGTH(32)" using nw by simp
  then have "unat (t0 + (?t1 - t0)) = unat t0 + unat (?t1 - t0)" by (rule iffD1 [OF unat_add_lem])
  with \<open>unat (?t1 - t0) \<le> 3000\<close> nw have nw1: "unat ?t1 + 7700 < 2 ^ 32" by simp
  show ?thesis
  proof (rule nth_equalityI)
    show "length (target_lines (fst (target_setup ready t0)) t) =
          length (stimulus TARGET_NUM_TEST_PINS (unat ?t1) t)"
      by (simp add: target_lines_def stimulus_def TARGET_NUM_TEST_PINS_def Let_def)
  next
    fix j assume "j < length (target_lines (fst (target_setup ready t0)) t)"
    then have j: "j < TARGET_NUM_TEST_PINS" by (simp add: target_lines_def TARGET_NUM_TEST_PINS_def)
    then show "target_lines (fst (target_setup ready t0)) t ! j =
               stimulus TARGET_NUM_TEST_PINS (unat ?t1) t ! j"
      using pin_level_script [OF j nw1 t] stimulus_nth [OF j t]
      by (simp add: target_lines_def target_setup_def TARGET_NUM_TEST_PINS_def)
  qed
qed

text \<open>C5: the Target's \<open>setup()\<close> implements the stimulus of the
  specification: at every time from the end of the serial wait on, the levels
  it drives on its roster lines are exactly those of \<open>stimulus\<close> started at
  that time (provided \<open>millis()\<close> at power-up is far enough from wrapping that
  the script's 10.7 s do not cross it).\<close>

theorem target_refines_stimulus:
  assumes nw: "unat t0 + 10700 < 2 ^ 32" and t: "unat (serial_wait ready t0 t0) \<le> t"
  shows "target_lines (fst (target_setup ready t0)) t =
           stimulus TARGET_NUM_TEST_PINS (unat (serial_wait ready t0 t0)) t"
  using target_lines_stimulus [OF nw t] .

theorem target_refines_stimulus_witness:
  "target_lines (fst (target_setup (\<lambda>t. 100 \<le> t) 0)) 2410 = stimulus 19 100 2410"
proof -
  have w: "serial_wait (\<lambda>t. 100 \<le> t) 0 0 = 100" by code_simp
  have "unat (0 :: u32) + 10700 < 2 ^ 32" "unat (serial_wait (\<lambda>t. 100 \<le> t) 0 0) \<le> 2410"
    by (simp_all add: w)
  moreover have n: "TARGET_NUM_TEST_PINS = 19"
    by (simp add: TARGET_NUM_TEST_PINS_def TARGET_TEST_PINS_def)
  ultimately show ?thesis using target_refines_stimulus [of 0 "\<lambda>t. 100 \<le> t" 2410]
    by (simp add: w n)
qed

end
