(* ===== verification/Sampling.thy ===== *)
theory Sampling
  imports Clean_Run Target
begin

text \<open>
  How the Master's polling meets the Target's script.  The Master reads the
  roster lines once per iteration of \<open>loop()\<close>; the Target drives them on its
  own clock.  A sampling is a list of Target times \<open>\<tau>s\<close> (in ms, as
  naturals, on the Target's clock) at which the Master polls; the Master's
  \<open>millis()\<close> at Target time \<open>\<tau>\<close> is \<open>D + \<tau>\<close> on the wrapping 32-bit
  clock, for an unknown offset \<open>D\<close>.  \<open>gaps_ok\<close> says that successive polls
  are less than 150 ms apart, the length of one pulse, so no pulse and no gap
  between pulses is missed.

  \<open>stim_phase T t\<close> numbers the phases of the specification's stimulus
  started at \<open>T\<close> (0 the all-high hold, 1 the all-low hold, \<open>2 + 2k\<close> the
  pulse of line \<open>k\<close>, \<open>3 + 2k\<close> the gap after it) and \<open>phase_lines\<close> gives
  the levels of each phase.  The main lemma \<open>sample_decomp\<close> cuts a sampling
  that satisfies \<open>gaps_ok\<close> and spans the stimulus into the snapshot lists
  the clean-run lemma \<open>clean_run\<close> of theory \<open>Clean_Run\<close> takes.
\<close>

fun steps_ok :: "nat list \<Rightarrow> bool" where
  "steps_ok (a # b # xs) = ((b = a \<or> b = Suc a) \<and> steps_ok (b # xs))"
| "steps_ok xs = True"

fun gaps_ok :: "nat list \<Rightarrow> bool" where
  "gaps_ok (a # b # xs) = (a \<le> b \<and> b - a < 150 \<and> gaps_ok (b # xs))"
| "gaps_ok xs = True"

definition stim_phase :: "nat \<Rightarrow> nat \<Rightarrow> nat" where
  "stim_phase T t =
     (if t < T + 1000 then 0 else if t < T + 2000 then 1 else 2 + (t - (T + 2000)) div 150)"

definition phase_lines :: "nat \<Rightarrow> nat \<Rightarrow> bool list" where
  "phase_lines n j =
     (if j = 0 then replicate n HIGH
      else if even j \<and> 2 \<le> j \<and> (j - 2) div 2 < n then only_high n ((j - 2) div 2)
      else replicate n LOW)"

subsection \<open>Phase sequences\<close>

lemma steps_ok_mono: "steps_ok (x # xs) \<Longrightarrow> y \<in> set xs \<Longrightarrow> x \<le> y"
  by (induction "x # xs" arbitrary: x xs rule: steps_ok.induct) auto

lemma steps_ok_last: "steps_ok (x # xs) \<Longrightarrow> x \<le> last (x # xs)"
  using steps_ok_mono [of x xs "last xs"] by (cases xs) auto

text \<open>A sequence that advances by at most one at each step is a run of
  blocks, one (non-empty) block per value from its first to its last.\<close>

lemma blocks_decomp:
  assumes "steps_ok (a # xs)"
  shows "\<exists>n m. 0 < m \<and> (\<forall>j. a \<le> j \<and> j < last (a # xs) \<longrightarrow> 0 < n j) \<and>
           a # xs = concat (map (\<lambda>j. replicate (n j) j) [a..<last (a # xs)]) @
                    replicate m (last (a # xs))"
  using assms
proof (induction xs arbitrary: a)
  case Nil
  show ?case by (intro exI [of _ "\<lambda>j. 0"] exI [of _ 1]) simp
next
  case (Cons b xs)
  define K where "K = last (b # xs)"
  have lastK: "last (a # b # xs) = K" by (simp add: K_def)
  have st: "b = a \<or> b = Suc a" "steps_ok (b # xs)" using Cons.prems by simp_all
  have bK: "b \<le> K" using steps_ok_last [OF st(2)] by (simp add: K_def)
  obtain n m where m: "0 < m" and n: "\<forall>j. b \<le> j \<and> j < K \<longrightarrow> 0 < n j"
    and e: "b # xs = concat (map (\<lambda>j. replicate (n j) j) [b..<K]) @ replicate m K"
    using Cons.IH [OF st(2)] unfolding K_def by blast
  have ab: "a # b # xs = a # concat (map (\<lambda>j. replicate (n j) j) [b..<K]) @ replicate m K"
    by (simp only: e)
  have sh: "concat (map (\<lambda>j. replicate (n' j) j) [Suc a..<K]) =
            concat (map (\<lambda>j. replicate (n j) j) [Suc a..<K])" if "\<forall>j. a < j \<longrightarrow> n' j = n j" for n'
    using that by (intro arg_cong [where f = concat] map_cong) auto
  from st(1) show ?case
  proof
    assume ba: "b = a"
    show ?thesis
    proof (cases "a < K")
      case True
      let ?n = "n(a := Suc (n a))"
      have u: "[a..<K] = a # [Suc a..<K]" using True by (simp add: upt_conv_Cons)
      have "a # b # xs = concat (map (\<lambda>j. replicate (?n j) j) [a..<K]) @ replicate m K"
        using ab sh [of ?n] by (simp add: ba u)
      moreover have "\<forall>j. a \<le> j \<and> j < K \<longrightarrow> 0 < ?n j" using n ba by auto
      ultimately show ?thesis using m lastK by metis
    next
      case False
      with bK ba have Ka: "K = a" by simp
      have "a # b # xs = concat (map (\<lambda>j. replicate (n j) j) [a..<K]) @ replicate (Suc m) K"
        using ab by (simp add: Ka ba)
      moreover have "\<forall>j. a \<le> j \<and> j < K \<longrightarrow> 0 < n j" using Ka by simp
      ultimately show ?thesis using lastK by (metis zero_less_Suc)
    qed
  next
    assume ba: "b = Suc a"
    let ?n = "n(a := 1)"
    have u: "[a..<K] = a # [Suc a..<K]" using bK ba by (simp add: upt_conv_Cons)
    have "a # b # xs = concat (map (\<lambda>j. replicate (?n j) j) [a..<K]) @ replicate m K"
      using ab sh [of ?n] by (simp add: ba u)
    moreover have "\<forall>j. a \<le> j \<and> j < K \<longrightarrow> 0 < ?n j" using n ba by auto
    ultimately show ?thesis using m lastK by metis
  qed
qed

subsection \<open>The stimulus by phases\<close>

lemma stimulus_phase:
  assumes "T \<le> t"
  shows "stimulus n T t = phase_lines n (stim_phase T t)"
proof -
  consider "t < T + 1000" | "T + 1000 \<le> t" "t < T + 2000" | "T + 2000 \<le> t" by linarith
  then show ?thesis
  proof cases
    case 3
    define d where "d = t - (T + 2000)"
    have q: "d div 300 = d div 150 div 2" by (simp add: div_mult2_eq [symmetric])
    have r: "d mod 300 = d mod 150 + 150 * (d div 150 mod 2)"
      using mod_mult2_eq [of d 150 2] by simp
    have "d mod 300 < 150 \<longleftrightarrow> even (d div 150)"
      using r by (auto simp: even_iff_mod_2_eq_zero)
    moreover have "d < 300 * n \<longleftrightarrow> d div 150 div 2 < n"
      by (simp add: q [symmetric] less_mult_imp_div_less div_less_iff_less_mult mult.commute)
    ultimately show ?thesis
      using 3 by (simp add: stimulus_def stim_phase_def phase_lines_def only_high_def d_def [symmetric] q
                   Let_def)
  qed (simp_all add: stimulus_def stim_phase_def phase_lines_def)
qed

lemma stim_phase_step:
  assumes "T \<le> a" "a \<le> b" "b - a < 150"
  shows "stim_phase T b = stim_phase T a \<or> stim_phase T b = Suc (stim_phase T a)"
proof -
  consider "a < T + 1000" | "T + 1000 \<le> a" "a < T + 2000" | "T + 2000 \<le> a" by linarith
  then show ?thesis
  proof cases
    case 3
    have "(b - (T + 2000)) div 150 \<le> (a - (T + 2000)) div 150 + 1"
    proof -
      have "b - (T + 2000) \<le> (a - (T + 2000)) + 150" using assms 3 by linarith
      then have "(b - (T + 2000)) div 150 \<le> ((a - (T + 2000)) + 150) div 150"
        by (rule div_le_mono)
      then show ?thesis by simp
    qed
    moreover have "(a - (T + 2000)) div 150 \<le> (b - (T + 2000)) div 150"
      using assms by (simp add: div_le_mono)
    ultimately show ?thesis using assms 3 by (auto simp: stim_phase_def)
  qed (use assms in \<open>auto simp: stim_phase_def\<close>)
qed

lemma gaps_steps:
  "gaps_ok (a # xs) \<Longrightarrow> T \<le> a \<Longrightarrow> steps_ok (map (stim_phase T) (a # xs))"
proof (induction xs arbitrary: a)
  case Nil then show ?case by simp
next
  case (Cons b xs)
  then have "steps_ok (map (stim_phase T) (b # xs))" by simp
  moreover have "stim_phase T b = stim_phase T a \<or> stim_phase T b = Suc (stim_phase T a)"
    using Cons.prems by (intro stim_phase_step) auto
  ultimately show ?case by auto
qed

lemma shift_blocks:
  "A @ concat (map (\<lambda>k. P k @ G k) [0..<m]) =
   concat (map (\<lambda>k. (if k = 0 then A else G (k - 1)) @ P k) [0..<m]) @ (if m = 0 then A else G (m - 1))"
  by (induction m) auto

lemma phase_blocks:
  "concat (map (\<lambda>j. replicate (n j) (phase_lines N j)) [2..<2 + 2 * m]) =
   concat (map (\<lambda>k. replicate (n (2 + 2 * k)) (phase_lines N (2 + 2 * k)) @
                    replicate (n (3 + 2 * k)) (phase_lines N (3 + 2 * k))) [0..<m])"
proof (induction m)
  case 0 then show ?case by simp
next
  case (Suc m)
  have "2 + 2 * Suc m = Suc (Suc (2 + 2 * m))" by simp
  then have "[2..<2 + 2 * Suc m] = [2..<2 + 2 * m] @ [2 + 2 * m, 3 + 2 * m]"
    by (simp only: upt_Suc) simp
  then show ?case
    by (simp only: map_append concat_append Suc.IH) (simp add: numeral_3_eq_3)
qed

text \<open>The pulse and gap phases, each sampled some number of times, are a
  clean pulse train as the clean-run lemma takes it.\<close>

lemma regroup_clean:
  assumes "0 < N"
  shows "replicate a (replicate N LOW) @
           concat (map (\<lambda>j. replicate (n j) (phase_lines N j)) [2..<2 * N]) @ [phase_lines N (2 * N)] =
         clean_sequence N (\<lambda>k. if k = 0 then a else n (1 + 2 * k)) (\<lambda>k. n (2 + 2 * k))"
proof -
  obtain m where N: "N = Suc m" using assms not0_implies_Suc by blast
  let ?A = "replicate a (replicate N LOW)"
  let ?P = "\<lambda>k. replicate (n (2 + 2 * k)) (only_high N k)"
  let ?G = "\<lambda>k. replicate (n (3 + 2 * k)) (replicate N LOW)"
  let ?lo = "\<lambda>k. if k = 0 then a else n (1 + 2 * k)"
  have twoN: "2 * N = 2 + 2 * m" by (simp add: N)
  have e1: "concat (map (\<lambda>j. replicate (n j) (phase_lines N j)) [2..<2 * N]) =
            concat (map (\<lambda>k. replicate (n (2 + 2 * k)) (phase_lines N (2 + 2 * k)) @
                             replicate (n (3 + 2 * k)) (phase_lines N (3 + 2 * k))) [0..<m])"
    unfolding twoN by (rule phase_blocks)
  have e2: "concat (map (\<lambda>k. replicate (n (2 + 2 * k)) (phase_lines N (2 + 2 * k)) @
                             replicate (n (3 + 2 * k)) (phase_lines N (3 + 2 * k))) [0..<m]) =
            concat (map (\<lambda>k. ?P k @ ?G k) [0..<m])"
  proof (rule arg_cong [where f = concat], rule map_cong)
    fix k assume "k \<in> set [0..<m]"
    then have "k < N" by (simp add: N)
    then have "phase_lines N (2 + 2 * k) = only_high N k" by (simp add: phase_lines_def)
    moreover have "phase_lines N (3 + 2 * k) = replicate N LOW" by (simp add: phase_lines_def)
    ultimately show "replicate (n (2 + 2 * k)) (phase_lines N (2 + 2 * k)) @
                     replicate (n (3 + 2 * k)) (phase_lines N (3 + 2 * k)) = ?P k @ ?G k" by simp
  qed simp
  have e3: "phase_lines N (2 * N) = only_high N (N - 1)" by (simp add: phase_lines_def N)
  have "N - 1 = m" by (simp add: N)
  have e4: "map (\<lambda>k. (if k = 0 then ?A else ?G (k - 1)) @ ?P k) [0..<m] =
            map (\<lambda>k. replicate (?lo k) (replicate N LOW) @ ?P k) [0..<m]"
  proof (rule map_cong)
    fix k show "(if k = 0 then ?A else ?G (k - 1)) @ ?P k = replicate (?lo k) (replicate N LOW) @ ?P k"
      by (cases k) (simp_all add: numeral_3_eq_3)
  qed simp
  have e5: "(if m = 0 then ?A else ?G (m - 1)) = replicate (?lo m) (replicate N LOW)"
    by (cases m) (simp_all add: numeral_3_eq_3)
  have "?A @ concat (map (\<lambda>k. ?P k @ ?G k) [0..<m]) =
        concat (map (\<lambda>k. replicate (?lo k) (replicate N LOW) @ ?P k) [0..<m]) @
        replicate (?lo m) (replicate N LOW)"
    using shift_blocks [of ?A ?P ?G m] by (simp only: e4 e5)
  then show ?thesis
    unfolding clean_sequence_def e1 e2 e3 \<open>N - 1 = m\<close> by (simp only: append_assoc [symmetric])
qed

subsection \<open>Samplings\<close>

lemma gaps_ok_ge: "gaps_ok (a # xs) \<Longrightarrow> y \<in> set xs \<Longrightarrow> a \<le> y"
  by (induction "a # xs" arbitrary: a xs rule: gaps_ok.induct) fastforce+

lemma gaps_ok_Cons: "gaps_ok (v # ys) \<Longrightarrow> gaps_ok ys"
  by (cases ys) auto

lemma gaps_ok_append: "gaps_ok (xs @ ys) \<Longrightarrow> gaps_ok ys"
  by (induction xs) (auto dest: gaps_ok_Cons)

lemma gaps_ok_last:
  "gaps_ok (xs @ [y]) \<Longrightarrow> xs \<noteq> [] \<Longrightarrow> y < last xs + 150"
proof (induction xs rule: gaps_ok.induct)
  case (1 a b xs) then show ?case by auto
next
  case "2_1" then show ?case by simp
next
  case "2_2" then show ?case by (simp; linarith)
qed

text \<open>Polls at a fixed period below 150 ms satisfy \<open>gaps_ok\<close>.\<close>

lemma gaps_ok_periodic:
  assumes "c < 150"
  shows "gaps_ok (map (\<lambda>i. a + c * i) [m..<n])"
proof (induction "n - m" arbitrary: m)
  case 0 then show ?case by simp
next
  case (Suc k)
  then have u: "[m..<n] = m # [Suc m..<n]" by (simp add: upt_conv_Cons)
  show ?case
  proof (cases "Suc m < n")
    case True
    then have "[Suc m..<n] = Suc m # [Suc (Suc m)..<n]" by (simp add: upt_conv_Cons)
    moreover have "gaps_ok (map (\<lambda>i. a + c * i) [Suc m..<n])" using Suc by simp
    ultimately show ?thesis using assms by (simp add: u)
  next
    case False
    then show ?thesis by (simp add: u)
  qed
qed

lemma map_stimulus_phase:
  "\<forall>\<tau>\<in>set xs. T \<le> \<tau> \<Longrightarrow> map (stimulus N T) xs = map (phase_lines N) (map (stim_phase T) xs)"
  by (simp add: stimulus_phase)

lemma phase_final:
  assumes "T + 2000 + 300 * (N - 1) \<le> t" "t < T + 2150 + 300 * (N - 1)" "0 < N"
  shows "stim_phase T t = 2 * N"
proof -
  have "(t - (T + 2000)) div 150 = 2 * (N - 1)"
    using assms by (intro div_nat_eqI) auto
  then show ?thesis using assms by (simp add: stim_phase_def)
qed

lemma phase_before_final:
  assumes "t < T + 2000 + 300 * (N - 1)" "0 < N"
  shows "stim_phase T t < 2 * N"
proof (cases "t < T + 2000")
  case False
  then have "(t - (T + 2000)) div 150 < 2 * (N - 1)"
    using assms by (simp add: div_less_iff_less_mult)
  with False assms show ?thesis by (simp add: stim_phase_def)
qed (use assms in \<open>simp add: stim_phase_def\<close>)

lemma map_concat_replicate:
  "map g (concat (map (\<lambda>j. replicate (n j) j) xs)) = concat (map (\<lambda>j. replicate (n j) (g j)) xs)"
  by (induction xs) auto

text \<open>A sampling that starts in the all-high hold, polls at gaps below 150 ms
  and stops at the first poll in the last line's pulse sees every phase, in
  order, each a positive number of times.\<close>

lemma sample_phases:
  assumes N: "0 < N" and g: "gaps_ok \<tau>s" and ne: "\<tau>s \<noteq> []"
    and h0: "T \<le> hd \<tau>s" "hd \<tau>s < T + 1000"
    and fin: "T + 2000 + 300 * (N - 1) \<le> last \<tau>s"
    and pre: "\<forall>\<tau>\<in>set (butlast \<tau>s). \<tau> < T + 2000 + 300 * (N - 1)"
  obtains n where "\<forall>j < 2 * N. 0 < n j"
    "map (stim_phase T) \<tau>s = replicate (n 0) 0 @ replicate (n 1) 1 @
       concat (map (\<lambda>j. replicate (n j) j) [2..<2 * N]) @ [2 * N]"
    "\<forall>\<tau>\<in>set \<tau>s. T \<le> \<tau> \<and> \<tau> < T + 2150 + 300 * (N - 1)"
proof -
  obtain a xs where \<tau>: "\<tau>s = a # xs" using ne by (cases \<tau>s) auto
  have ge: "\<forall>\<tau>\<in>set \<tau>s. T \<le> \<tau>" using g h0(1) gaps_ok_ge [of a xs] \<tau> by fastforce
  have "xs \<noteq> []" using fin h0(2) \<tau> by auto
  then obtain ys z where \<tau>2: "\<tau>s = ys @ [z]" and ys: "ys \<noteq> []"
    using \<tau> by (metis append_butlast_last_id butlast.simps(2) last_ConsR list.distinct(1))
  have "last ys < T + 2000 + 300 * (N - 1)" using pre ys \<tau>2 by simp
  moreover have "z < last ys + 150" using gaps_ok_last [of ys z] g ys \<tau>2 by simp
  ultimately have zlt: "z < T + 2150 + 300 * (N - 1)" by linarith
  have all_lt: "\<forall>\<tau>\<in>set \<tau>s. \<tau> < T + 2150 + 300 * (N - 1)" using pre zlt \<tau>2 by fastforce
  define ps where "ps = map (stim_phase T) \<tau>s"
  have st: "steps_ok (0 # tl ps)"
    using gaps_steps [of a xs T] g h0 \<tau> by (simp add: ps_def stim_phase_def)
  have psd: "ps = 0 # tl ps" using h0 \<tau> by (simp add: ps_def stim_phase_def)
  have "last ps = stim_phase T z" using \<tau>2 by (simp add: ps_def)
  moreover have "stim_phase T z = 2 * N" using phase_final [of T N z] fin zlt N \<tau>2 by simp
  ultimately have lastps: "last (0 # tl ps) = 2 * N" using psd by metis
  obtain n m where m: "0 < m" and n: "\<forall>j. 0 \<le> j \<and> j < 2 * N \<longrightarrow> 0 < n j"
    and e: "ps = concat (map (\<lambda>j. replicate (n j) j) [0..<2 * N]) @ replicate m (2 * N)"
    using blocks_decomp [OF st] lastps psd by metis
  have "\<forall>x\<in>set (butlast ps). x < 2 * N"
  proof
    fix x assume "x \<in> set (butlast ps)"
    moreover have "butlast ps = map (stim_phase T) (butlast \<tau>s)" by (simp add: ps_def map_butlast)
    ultimately obtain \<tau> where "\<tau> \<in> set (butlast \<tau>s)" "x = stim_phase T \<tau>" by auto
    then show "x < 2 * N" using pre N phase_before_final by blast
  qed
  then have m1: "m = 1" using e m
    by (cases m) (auto simp: butlast_append split: if_splits)
  have u: "[0..<2 * N] = 0 # 1 # [2..<2 * N]" using N by (simp add: upt_conv_Cons numeral_2_eq_2)
  have "map (stim_phase T) \<tau>s = replicate (n 0) 0 @ replicate (n 1) 1 @
          concat (map (\<lambda>j. replicate (n j) j) [2..<2 * N]) @ [2 * N]"
    using e m1 u by (simp add: ps_def)
  moreover have "\<forall>j < 2 * N. 0 < n j" using n by simp
  ultimately show ?thesis using that ge all_lt by blast
qed

text \<open>The cut: the first all-high snapshot, the all-high snapshots the
  All-Low stage still sees, the first all-low snapshot, and the pulse train.\<close>

lemma sample_decomp:
  assumes N: "0 < N" and g: "gaps_ok \<tau>s" and ne: "\<tau>s \<noteq> []"
    and h0: "T \<le> hd \<tau>s" "hd \<tau>s < T + 1000"
    and fin: "T + 2000 + 300 * (N - 1) \<le> last \<tau>s"
    and pre: "\<forall>\<tau>\<in>set (butlast \<tau>s). \<tau> < T + 2000 + 300 * (N - 1)"
  obtains h al l sq lo hi where
    "\<tau>s = h # al @ l # sq" "\<forall>j<N - 1. 0 < hi j"
    "map (stimulus N T) (h # al) = replicate (Suc (length al)) (replicate N HIGH)"
    "stimulus N T l = replicate N LOW"
    "map (stimulus N T) sq = clean_sequence N lo hi"
    "T \<le> h" "\<forall>\<tau>\<in>set al. h \<le> \<tau> \<and> \<tau> < T + 1000" "T + 1000 \<le> l"
    "\<forall>\<tau>\<in>set sq. l \<le> \<tau> \<and> \<tau> < T + 2150 + 300 * (N - 1)"
proof -
  obtain n where n: "\<forall>j < 2 * N. 0 < n j"
    and ph: "map (stim_phase T) \<tau>s = replicate (n 0) 0 @ replicate (n 1) 1 @
               concat (map (\<lambda>j. replicate (n j) j) [2..<2 * N]) @ [2 * N]"
    and rng: "\<forall>\<tau>\<in>set \<tau>s. T \<le> \<tau> \<and> \<tau> < T + 2150 + 300 * (N - 1)"
    by (rule sample_phases [OF N g ne h0 fin pre])
  obtain u0 r0 where t0: "\<tau>s = u0 @ r0" and m0: "map (stim_phase T) u0 = replicate (n 0) 0"
    and mr0: "map (stim_phase T) r0 = replicate (n 1) 1 @
                concat (map (\<lambda>j. replicate (n j) j) [2..<2 * N]) @ [2 * N]"
    using ph by (rule map_append_split)
  from mr0 obtain u1 r1 where t1: "r0 = u1 @ r1" and m1': "map (stim_phase T) u1 = replicate (n 1) 1"
    and mr1: "map (stim_phase T) r1 = concat (map (\<lambda>j. replicate (n j) j) [2..<2 * N]) @ [2 * N]"
    by (rule map_append_split)
  have "0 < n 0" "0 < n 1" using n N by auto
  then obtain h al l l' where u0: "u0 = h # al" and u1: "u1 = l # l'"
    using m0 m1' by (cases u0; cases u1) auto
  have lens: "n 0 = Suc (length al)" "n 1 = Suc (length l')"
    using m0 m1' u0 u1 by (metis length_map length_replicate length_Cons)+
  have ts: "\<tau>s = h # al @ l # (l' @ r1)" using t0 t1 u0 u1 by simp
  have geT: "\<forall>\<tau>\<in>set (h # al). T \<le> \<tau>" "\<forall>\<tau>\<in>set (l # l' @ r1). T \<le> \<tau>"
    using rng ts by auto
  have "map (stimulus N T) (h # al) = map (phase_lines N) (map (stim_phase T) u0)"
    using map_stimulus_phase [OF geT(1), of N] u0 by simp
  also have "\<dots> = replicate (n 0) (replicate N HIGH)" using m0 by (simp add: phase_lines_def)
  finally have p1: "map (stimulus N T) (h # al) = replicate (Suc (length al)) (replicate N HIGH)"
    using lens(1) by simp
  have "map (stimulus N T) (l # l') = map (phase_lines N) (map (stim_phase T) u1)"
    using map_stimulus_phase [OF geT(2), of N] u1 by simp
  also have "\<dots> = replicate (n 1) (replicate N LOW)" using m1' by (simp add: phase_lines_def)
  finally have p2: "stimulus N T l = replicate N LOW" "map (stimulus N T) l' = replicate (n 1 - 1) (replicate N LOW)"
    using lens(2) by simp_all
  have "map (stimulus N T) r1 = concat (map (\<lambda>j. replicate (n j) (phase_lines N j)) [2..<2 * N]) @
                               [phase_lines N (2 * N)]"
    using map_stimulus_phase [OF geT(2), of N] mr1 by (simp add: map_concat_replicate)
  then have p3: "map (stimulus N T) (l' @ r1) =
      clean_sequence N (\<lambda>k. if k = 0 then n 1 - 1 else n (1 + 2 * k)) (\<lambda>k. n (2 + 2 * k))"
    using p2(2) regroup_clean [OF N, of "n 1 - 1" n] by simp
  have hi: "\<forall>j<N - 1. 0 < n (2 + 2 * j)" using n by auto
  have tm0: "\<forall>\<tau>\<in>set al. h \<le> \<tau> \<and> \<tau> < T + 1000"
  proof
    fix \<tau> assume "\<tau> \<in> set al"
    moreover have "stim_phase T \<tau> = 0" if "\<tau> \<in> set al"
      using map_eq_replicateD [OF m0, of \<tau>] that u0 by simp
    ultimately show "h \<le> \<tau> \<and> \<tau> < T + 1000"
      using gaps_ok_ge [of h "al @ l # l' @ r1"] g ts by (auto simp: stim_phase_def split: if_splits)
  qed
  have "stim_phase T l = 1" using map_eq_replicateD [OF m1', of l] u1 by simp
  then have tl: "T + 1000 \<le> l" using geT(2) by (auto simp: stim_phase_def split: if_splits)
  have "gaps_ok (l # l' @ r1)" using g ts gaps_ok_append [of "h # al" "l # l' @ r1"] by simp
  then have tm2: "\<forall>\<tau>\<in>set (l' @ r1). l \<le> \<tau> \<and> \<tau> < T + 2150 + 300 * (N - 1)"
    using gaps_ok_ge [of l "l' @ r1"] rng ts by auto
  show ?thesis
    by (rule that [OF ts hi p1 p2(1) p3 _ tm0 tl tm2]) (use geT in simp)
qed

subsection \<open>The Master's clock\<close>

lemma unat_clock_diff:
  assumes "a \<le> b" "b - a < 2 ^ 32"
  shows "unat ((D + word_of_nat b) - (D + word_of_nat a) :: u32) = b - a"
proof -
  have "(D + word_of_nat b) - (D + word_of_nat a) = (word_of_nat (b - a) :: u32)"
    using assms(1) by (simp add: of_nat_diff)
  then show ?thesis using assms(2) by (simp add: unat_of_nat)
qed

lemma clock_within:
  assumes "a \<le> b" "b - a \<le> c" "c < 2 ^ 32"
  shows "\<not> (D + word_of_nat b) - (D + word_of_nat a) > (word_of_nat c :: u32)"
  using assms unat_clock_diff [of a b D] by (simp add: word_less_nat_alt unat_of_nat)

lemma all_at_replicate: "all_at level (replicate n level)"
  by (simp add: all_at_def all_at_loop_eq list_all_iff)

lemma not_all_at_replicate: "0 < n \<Longrightarrow> level' \<noteq> level \<Longrightarrow> \<not> all_at level (replicate n level')"
  by (simp add: all_at_def all_at_loop_eq list_all_iff)


subsection \<open>The Target's lines as the Master polls them\<close>

text \<open>Polls of the levels the Target drives, at Target times \<open>\<tau>s\<close> read on
  the Master's clock as \<open>D + \<tau>\<close>, split into the snapshot lists of a clean
  run, with the timing each stage of the Master asks for.\<close>

lemma target_samples:
  fixes D t0 :: u32 and ready :: "u32 \<Rightarrow> bool"
  defines "mk \<equiv> \<lambda>\<tau>. quiet_tick (D + word_of_nat \<tau>) (target_lines (fst (target_setup ready t0)) \<tau>)"
  assumes len: "length lbl = TARGET_NUM_TEST_PINS"
    and nw: "unat t0 + 10700 < 2 ^ 32"
    and g: "gaps_ok \<tau>s" "\<tau>s \<noteq> []"
    and first: "unat (serial_wait ready t0 t0) \<le> hd \<tau>s" "hd \<tau>s < unat (serial_wait ready t0 t0) + 1000"
    and fin: "unat (serial_wait ready t0 t0) + 7400 \<le> last \<tau>s"
    and pre: "\<forall>\<tau>\<in>set (butlast \<tau>s). \<tau> < unat (serial_wait ready t0 t0) + 7400"
  obtains h al l sq lo hi where
    "map mk \<tau>s = [h] @ al @ [l] @ sq" "t_cmd h = None" "all_at HIGH (t_pins h)"
    "\<forall>i\<in>set al. t_cmd i = None \<and> \<not> all_at LOW (t_pins i) \<and>
                \<not> t_now i - t_now h > LOW_STAGE_TIMEOUT_MS"
    "t_cmd l = None" "all_at LOW (t_pins l)"
    "map t_pins sq = clean_sequence (length lbl) lo hi" "\<forall>j < length lbl - 1. 0 < hi j"
    "\<forall>i\<in>set sq. t_cmd i = None \<and> \<not> t_now i - t_now l > SEQUENCE_TIMEOUT_MS"
proof -
  define T where "T = unat (serial_wait ready t0 t0)"
  have N: "length lbl = 19" using len by (simp add: TARGET_NUM_TEST_PINS_def TARGET_TEST_PINS_def)
  have N19: "TARGET_NUM_TEST_PINS = 19" using len N by simp
  have st: "t_pins (mk \<tau>) = stimulus 19 T \<tau>" if "T \<le> \<tau>" for \<tau>
    using target_lines_stimulus [OF nw, of ready \<tau>] that by (simp add: mk_def quiet_tick_def T_def N19)
  have tn: "t_now (mk \<tau>) = D + word_of_nat \<tau>" "t_cmd (mk \<tau>) = None" for \<tau>
    by (simp_all add: mk_def quiet_tick_def)
  obtain h al l sq lo hi where ts: "\<tau>s = h # al @ l # sq" and hi: "\<forall>j<19 - 1. 0 < hi j"
    and p1: "map (stimulus 19 T) (h # al) = replicate (Suc (length al)) (replicate 19 HIGH)"
    and p2: "stimulus 19 T l = replicate 19 LOW"
    and p3: "map (stimulus 19 T) sq = clean_sequence 19 lo hi"
    and t1: "T \<le> h" "\<forall>\<tau>\<in>set al. h \<le> \<tau> \<and> \<tau> < T + 1000" "T + 1000 \<le> l"
    and t2: "\<forall>\<tau>\<in>set sq. l \<le> \<tau> \<and> \<tau> < T + 2150 + 300 * (19 - 1)"
    by (rule sample_decomp [of 19 \<tau>s T, OF _ g]) (use first fin pre in \<open>simp_all add: T_def add.commute\<close>)
  have al: "\<forall>i\<in>set (map mk al). t_cmd i = None \<and> \<not> all_at LOW (t_pins i) \<and>
               \<not> t_now i - t_now (mk h) > LOW_STAGE_TIMEOUT_MS"
  proof
    fix i assume "i \<in> set (map mk al)"
    then obtain \<tau> where i: "i = mk \<tau>" and \<tau>: "\<tau> \<in> set al" by auto
    have "stimulus 19 T \<tau> = replicate 19 HIGH" using p1 \<tau> by (auto dest: map_eq_replicateD)
    moreover have "T \<le> \<tau>" using t1 \<tau> by auto
    moreover have "\<not> (D + word_of_nat \<tau>) - (D + word_of_nat h) > (word_of_nat 3000 :: u32)"
      using t1 \<tau> by (intro clock_within) auto
    ultimately show "t_cmd i = None \<and> \<not> all_at LOW (t_pins i) \<and>
                     \<not> t_now i - t_now (mk h) > LOW_STAGE_TIMEOUT_MS"
      using st i tn by (simp add: not_all_at_replicate LOW_STAGE_TIMEOUT_MS_def)
  qed
  have "map t_pins (map mk sq) = map (stimulus 19 T) sq"
    using st t1 t2 by (auto intro!: map_cong)
  then have sq: "map t_pins (map mk sq) = clean_sequence (length lbl) lo hi"
    using p3 N by simp
  have sqt: "\<forall>i\<in>set (map mk sq). t_cmd i = None \<and> \<not> t_now i - t_now (mk l) > SEQUENCE_TIMEOUT_MS"
  proof
    fix i assume "i \<in> set (map mk sq)"
    then obtain \<tau> where i: "i = mk \<tau>" and \<tau>: "\<tau> \<in> set sq" by auto
    have "\<not> (D + word_of_nat \<tau>) - (D + word_of_nat l) > (word_of_nat 15000 :: u32)"
      using t1 t2 \<tau> by (intro clock_within) auto
    then show "t_cmd i = None \<and> \<not> t_now i - t_now (mk l) > SEQUENCE_TIMEOUT_MS"
      using i tn by (simp add: SEQUENCE_TIMEOUT_MS_def)
  qed
  show ?thesis
  proof (rule that [of "mk h" "map mk al" "mk l" "map mk sq"])
    show "map mk \<tau>s = [mk h] @ map mk al @ [mk l] @ map mk sq" using ts by simp
    show "all_at HIGH (t_pins (mk h))" using p1 st [OF t1(1)] by (simp add: all_at_replicate)
    show "all_at LOW (t_pins (mk l))" using p2 st [of l] t1 by (simp add: all_at_replicate)
    show "t_cmd (mk h) = None" "t_cmd (mk l) = None" by (rule tn(2))+
    show "\<forall>j < length lbl - 1. 0 < hi j" using hi N by simp
  qed (rule al sq sqt)+
qed

end
