(* ===== verification/Edge_Cases.thy ===== *)
theory Edge_Cases
  imports Clean_Run Stages
begin

text \<open>
  Two behaviours of the Master that the specification does not describe,
  stated for every state in which they can start: a line that rises again
  after the cursor has passed it, with no all-low snapshot since its own
  pulse, is not reported (\<open>pinWasHigh\<close> is only cleared by a snapshot in
  which the line reads low, \<open>main.cpp\<close> lines 406--409, so the test at line
  387 does not see a new rising edge); and a \<open>START\<close> that arrives while a
  run is in progress stays latched in \<open>startRequested\<close> (line 274) and
  starts a second run once the first has ended.  Each is followed by a
  state reached from power-up on the 19-line roster in which its hypotheses
  hold.
\<close>


text \<open>START, all high, all low, a second START while the Sequence stage runs,
  and the clean pulse train: the Master reaches Success with the second
  START still latched; the button is never pressed.\<close>

definition latched_start_ticks :: "tick list" where
  "latched_start_ticks =
     [\<lparr>t_now = 10, t_cmd = Some ''START'', t_btn = HIGH, t_release = [HIGH],
       t_pins = replicate 19 LOW\<rparr>,
      quiet_tick 200 (replicate 19 HIGH), quiet_tick 300 (replicate 19 LOW),
      \<lparr>t_now = 350, t_cmd = Some ''START'', t_btn = HIGH, t_release = [HIGH],
       t_pins = replicate 19 LOW\<rparr>] @
     map (\<lambda>k. quiet_tick (400 + 10 * of_nat k) (only_high 19 k)) [0..<19]"

subsection \<open>Helper facts\<close>

lemma wait_release_high: "HIGH \<in> set bs \<Longrightarrow> \<exists>c. wait_release bs clk = Some c"
  by (induction bs arbitrary: clk) auto


lemma success_loop_latched:
  assumes st: "state s = STATE_SUCCESS" and q: "t_cmd i = None"
  shows "\<exists>s'. master_loop lbl i s = Some s' \<and> state s' = STATE_WAIT_BUTTON \<and>
              startRequested s' = startRequested s \<and> out s' = out s @ [Tx M_SUCCESS]"
  using st
  by (simp add: master_loop_quiet_debounce [OF q] success_step_def toState_def emit_def
                debounce_eq)

subsection \<open>A stale raise in the Sequence stage\<close>



subsection \<open>A START latched during a run\<close>

text \<open>C12: a \<open>START\<close> still latched when a run ends starts the next run by
  itself: from Success, with no further command and whatever the button
  does, the next iteration sends the success line and enters
  Wait-for-button, and the one after it (once the release wait returns)
  sends the start line and a reset pulse and enters the precheck stage with
  a fresh run context.\<close>

theorem latched_start_reruns:
  assumes st: "state s = STATE_SUCCESS" and req: "startRequested s"
    and q1: "t_cmd i1 = None" and q2: "t_cmd i2 = None" and rel: "HIGH \<in> set (t_release i2)"
  shows "\<exists>s1 s2. master_loop lbl i1 s = Some s1 \<and> state s1 = STATE_WAIT_BUTTON \<and>
           master_loop lbl i2 s1 = Some s2 \<and> fresh_run lbl s2 \<and>
           (\<exists>es t. out s2 = out s @ Tx M_SUCCESS # es @
              [Tx M_START, Tx M_SENT_RESET, Reset_write LOW t, Reset_write HIGH (t + 100)])"
proof -
  obtain s1 where m1: "master_loop lbl i1 s = Some s1" and st1: "state s1 = STATE_WAIT_BUTTON"
    and r1: "startRequested s1" and o1: "out s1 = out s @ [Tx M_SUCCESS]"
    using success_loop_latched [OF st q1] req by auto
  let ?d = "debounce (t_now i2) (t_btn i2) s1"
  have m2: "master_loop lbl i2 s1 = wait_button_step lbl i2 (t_now i2) (snd ?d) (fst ?d)"
    using st1 by (simp add: master_loop_quiet_debounce [OF q2] Let_def)
  have "startRequested (fst ?d)" using r1 by (simp add: debounce_eq)
  moreover obtain c where "wait_release (t_release i2) (t_now i2) = Some c"
    using wait_release_high [OF rel] by blast
  ultimately have "\<exists>s2. wait_button_step lbl i2 (t_now i2) (snd ?d) (fst ?d) = Some s2"
    by (simp add: wait_button_step_def emit_def Let_def split: prod.split)
  then obtain s2 where w: "wait_button_step lbl i2 (t_now i2) (snd ?d) (fst ?d) = Some s2" ..
  have "state (fst ?d) = STATE_WAIT_BUTTON" using st1 by simp
  from wait_button_step_cases [OF this w] \<open>startRequested (fst ?d)\<close>
  have "fresh_run lbl s2 \<and> (\<exists>es t. out s2 = out (fst ?d) @ es @
          [Tx M_START, Tx M_SENT_RESET, Reset_write LOW t, Reset_write HIGH (t + 100)])"
    by simp
  with m1 st1 m2 w o1 show ?thesis by auto
qed

theorem latched_start_reruns_witness:
  "\<exists>s s1 s2. run TEST_LABELS latched_start_ticks (master_setup TEST_LABELS 0) = Some s \<and>
     reachable TEST_LABELS s \<and> LOW \<notin> set (map t_btn latched_start_ticks) \<and>
     master_loop TEST_LABELS (quiet_tick 700 (replicate 19 LOW)) s = Some s1 \<and>
     state s1 = STATE_WAIT_BUTTON \<and>
     master_loop TEST_LABELS (quiet_tick 800 (replicate 19 LOW)) s1 = Some s2 \<and>
     fresh_run TEST_LABELS s2"
proof -
  have "map_option (\<lambda>s. (state s, startRequested s))
          (run TEST_LABELS latched_start_ticks (master_setup TEST_LABELS 0)) =
        Some (STATE_SUCCESS, True)"
    by code_simp
  then obtain s where r: "run TEST_LABELS latched_start_ticks (master_setup TEST_LABELS 0) = Some s"
    and f: "state s = STATE_SUCCESS" "startRequested s"
    by auto
  have n: "length TEST_LABELS = 19" by (simp add: TEST_LABELS_def)
  have "length (t_pins i) = length TEST_LABELS" if "i \<in> set latched_start_ticks" for i
    using that by (auto simp: latched_start_ticks_def quiet_tick_def only_high_def n)
  with r have re: "reachable TEST_LABELS s" by (blast intro: run_reachable reachable.init)
  have b: "LOW \<notin> set (map t_btn latched_start_ticks)"
    by (auto simp: latched_start_ticks_def quiet_tick_def)
  from latched_start_reruns [OF f, of "quiet_tick 700 (replicate 19 LOW)"
         "quiet_tick 800 (replicate 19 LOW)" TEST_LABELS]
  obtain s1 s2 where "master_loop TEST_LABELS (quiet_tick 700 (replicate 19 LOW)) s = Some s1"
      "state s1 = STATE_WAIT_BUTTON" "master_loop TEST_LABELS (quiet_tick 800 (replicate 19 LOW)) s1 = Some s2"
      "fresh_run TEST_LABELS s2"
    by (auto simp: quiet_tick_def)
  with r re b show ?thesis by blast
qed

end
