(* ===== verification/Spec2Isabelle.thy ===== *)
theory Spec2Isabelle
  imports Stage_Markers Sampling Edge_Cases
begin

text \<open>
  A verification model of the c!n tester firmware pair,
  \<open>src/mcu_firmwares/target_firmware/src/main.cpp\<close>: the Target firmware
  (lines 1--110) followed by the Master firmware (lines 113--465).  The Master
  (Controller) runs the test: it waits for a button press or a \<open>START\<close>
  command, resets the Target, checks that all roster lines go high, then all
  low, then that they rise one at a time in roster order, and reports every
  step as a status line on its serial link.  The Target drives its lines
  through that script once after every reset.  The two meet only through the
  roster lines (wired position for position) and the reset line.

  \<^bold>\<open>Theories and what they model\<close>, leaves first:
  \<^item> \<open>Prelude\<close>: 32-bit \<open>unsigned long\<close> time (\<open>u32 = 32 word\<close>), logic
    levels, the comma-joining of label lists, the serial line encoding, and
    the wrap-around facts about \<open>now - start\<close> every timeout relies on.
  \<^item> \<open>Serial_Wait\<close>: the USB serial wait both \<open>setup()\<close>s begin with
    (\<open>serial_wait\<close>), a \<open>function\<close> with a termination proof by a measure
    on the wrapping clock.
  \<^item> \<open>Target\<close>: the Stimulus Driver, lines 1--110: pins and timings,
    \<open>setAll\<close>, the stage-3 loop (\<open>seq_pulses\<close>), \<open>setup()\<close> as its
    timed event list (\<open>target_setup\<close>, \<open>target_script\<close>), \<open>loop()\<close>;
    \<open>pin_level\<close>/\<open>target_lines\<close> read the events as line levels over time.
  \<^item> \<open>Roster\<close>: the Master's roster (\<open>TEST_PINS\<close>, \<open>TEST_LABELS\<close>) and
    the Line Sampler: the all-at-level loop with \<open>break\<close>, the high-line
    counter, \<open>printDynamicPinsByLevel\<close>, each with its closed form.
  \<^item> \<open>Markers\<close>: the Master's status lines as a datatype with their exact
    bytes, and its event log of serial lines and reset-line writes.
  \<^item> \<open>Command\<close>: the Command Channel (\<open>trim\<close>, \<open>equalsIgnoreCase\<close>, the
    \<open>START\<close>/\<open>FLASH\<close>/\<open>DFU\<close> chain); \<open>Debounce\<close>: the button filter and
    its state record; \<open>Reset\<close>: \<open>pulseReset\<close> and \<open>enterFlashMode\<close>.
  \<^item> \<open>Sequencer\<close>: the Test Sequencer, lines 173--465: the Master's globals as
    a record extending the button state, \<open>setup()\<close> (\<open>master_boot\<close>,
    \<open>master_setup\<close>), the command poll, the release wait, one handler per
    \<open>case\<close> of the \<open>switch\<close>, \<open>loop()\<close> as \<open>master_loop\<close>, runs of
    iterations (\<open>run\<close>) and the reachable states (\<open>reachable\<close>, inductive).
  \<^item> \<open>Invariants\<close>: the state invariant \<open>seq_inv\<close> (cursor and flag
    bounds per stage) preserved by every handler, shape lemmas for one
    iteration; \<open>Scenarios\<close>: a concrete run; \<open>Stages\<close>: the behaviour of
    one iteration in each stage, errors included, and of the commands.
  \<^item> \<open>Stage_Markers\<close>: the counting invariant of the BEGIN and FAIL lines.
  \<^item> \<open>Clean_Run\<close>: a clean test from activation to Success, phase by phase.
  \<^item> \<open>Sampling\<close>: the Master's polls placed on the Target's clock; a
    sampling with gaps below one pulse (150 ms) cut into the phases of the
    stimulus (\<open>sample_decomp\<close>).  This theory joins the two firmwares.
  \<^item> \<open>Edge_Cases\<close>: two behaviours outside what the specification says,
    stated over every state they can start from, each with a state reached
    from power-up in which it occurs.

  \<^bold>\<open>How the code maps.\<close>  C globals are record fields of the same name;
  \<open>enum TestState\<close> is a datatype; every handler takes and returns the whole
  state; the serial output and the reset-line writes are appended to the log
  \<open>out\<close> in order.  An iteration reads a \<open>tick\<close>: \<open>millis()\<close> at its
  start, the command line if one is available, the button, the successive
  button readings of the release wait, and the line levels.  Inside an
  iteration the clock advances only by \<open>delay()\<close>; \<open>Serial\<close>, \<open>digitalRead\<close>
  and \<open>digitalWrite\<close> take no time.  Blocking loops are recursion: the
  release wait over its list of readings, \<open>None\<close> when it never sees the
  button released (so \<open>master_loop\<close> is \<open>None\<close> exactly when the iteration
  does not return); the serial wait by a termination measure.  The Target is
  a script, modelled as the list of its effects stamped with its own clock.

  \<^bold>\<open>What is proved\<close> (claims C1--C22, in order of importance): a clean run
  reaches Success with the cursor at \<open>N\<close> and exactly the expected lines
  (C1); the fault paths of the Sequence stage (C2, C4, C8) and the prechecks
  (C9); each stage's BEGIN line once per entry (C3); the Target's script
  drives exactly the stimulus of the specification (C5, a refinement); the
  exits of Fail and Wait-for-button (C6, C7, C18); the state invariant (C10);
  the behaviours outside the specification, each for every state in which it
  can start: a stale raise in the Sequence stage goes unreported (C11), a
  \<open>START\<close> received during a run is kept (C13) and starts a second run
  from Success (C12); the flash command (C14), command recognition (C15,
  C16), debouncing over two polls (C17) and the serial wait (C19); the
  release wait returns exactly when the button is released (C20); the
  Sampler loops equal their closed forms (C21, C22); and, joining the two
  firmwares, the Master polling the levels the Target's \<open>setup()\<close> drives
  reaches Success and prints exactly the lines of a clean run (C23).

  \<^bold>\<open>Bounds.\<close>  Timestamps are 32-bit words and every timeout comparison
  is on the wrapping difference, as in the code.  The refinement of the
  Target (C5) assumes \<open>millis()\<close> at power-up is at least 10.7 s below
  \<open>2^32\<close>, so that its 10.7 s script (3 s wait, 2 s of holds, 19 pulses of
  300 ms) does not cross the wrap.  The joint theorem (C23) takes the
  Master's clock to be the Target's plus any offset \<open>D\<close>, on the wrapping
  word, and asks successive polls to be less than 150 ms apart: a pulse
  lasts 150 ms, so such a sampling sees every pulse and every gap at least
  once; the loop of the real Master takes a few milliseconds per iteration.  No fuel is used: every loop is a
  terminating function or ranges over the finite input it reads.

  \<^bold>\<open>Not modelled.\<close>  The host application (not in the sources; the model
  exposes the bytes it reads, \<open>serial_bytes\<close>); the status LEDs (their
  writes are kept in the state but nothing depends on them); the physical
  timing of \<open>Serial\<close> and \<open>digitalWrite\<close>, taken as zero; drift
  between the two devices' clocks (C23 takes a fixed offset) and the
  duration of one iteration of the Master's \<open>loop()\<close>, which enters C23
  only through the hypothesis that polls are less than 150 ms apart; how
  the reset pulse starts the Target, which enters C23 as the hypothesis
  that the Master is in the state an activation leaves while the Target
  runs its \<open>setup()\<close>.
\<close>


text \<open>C23: the Target's script, polled by the Master, makes a clean run.  Take
  the Master in the state an activation leaves (the Target having just been
  reset), any number of polls before the Target's lines are all high (within
  the precheck window), and then polls at Target times \<open>\<tau>s\<close>, read on the
  Master's clock as \<open>D + \<tau>\<close> (any offset \<open>D\<close>, wrapping): the first poll
  during the Target's all-high hold, successive polls less than 150 ms
  apart, and the last one the first poll inside the last line's pulse.  Then
  the Master, reading the levels the Target's \<open>setup()\<close> drives, reaches
  Success with the cursor at \<open>N\<close> and prints exactly the lines of a clean
  run.\<close>

theorem target_drives_clean_run:
  assumes fr: "fresh_run lbl s" and len: "length lbl = TARGET_NUM_TEST_PINS"
    and ah: "\<forall>i\<in>set ah. t_cmd i = None \<and> \<not> all_at HIGH (t_pins i) \<and>
                      \<not> t_now i - stateStartMs s > PRECHECK_TIMEOUT_MS"
    and nw: "unat t0 + 10700 < 2 ^ 32"
    and g: "gaps_ok \<tau>s" "\<tau>s \<noteq> []"
    and first: "unat (serial_wait ready t0 t0) \<le> hd \<tau>s" "hd \<tau>s < unat (serial_wait ready t0 t0) + 1000"
    and fin: "unat (serial_wait ready t0 t0) + 7400 \<le> last \<tau>s"
    and pre: "\<forall>\<tau>\<in>set (butlast \<tau>s). \<tau> < unat (serial_wait ready t0 t0) + 7400"
  shows "\<exists>s'. run lbl (ah @ map (\<lambda>\<tau>. quiet_tick (D + word_of_nat \<tau>)
                                   (target_lines (fst (target_setup ready t0)) \<tau>)) \<tau>s) s = Some s' \<and>
              state s' = STATE_SUCCESS \<and> expectedIndex s' = int (length lbl) \<and>
              out s' = out s @ map Tx ([M_ALL_HIGH_BEGIN, M_ALL_HIGH_OK, M_ALL_LOW_BEGIN, M_ALL_LOW_OK,
                                       M_SEQ_BEGIN] @ map (\<lambda>j. M_SEQ_OK (lbl ! j)) [0..<length lbl] @
                                      [M_SEQ_ALL_OK])"
proof -
  obtain h al l sq lo hi where
    m: "map (\<lambda>\<tau>. quiet_tick (D + word_of_nat \<tau>) (target_lines (fst (target_setup ready t0)) \<tau>)) \<tau>s =
        [h] @ al @ [l] @ sq"
    and f: "t_cmd h = None" "all_at HIGH (t_pins h)"
      "\<forall>i\<in>set al. t_cmd i = None \<and> \<not> all_at LOW (t_pins i) \<and>
                  \<not> t_now i - t_now h > LOW_STAGE_TIMEOUT_MS"
      "t_cmd l = None" "all_at LOW (t_pins l)"
      "map t_pins sq = clean_sequence (length lbl) lo hi" "\<forall>j < length lbl - 1. 0 < hi j"
      "\<forall>i\<in>set sq. t_cmd i = None \<and> \<not> t_now i - t_now l > SEQUENCE_TIMEOUT_MS"
    by (rule target_samples [OF len nw g first fin pre])
  have ne: "lbl \<noteq> []" using len by (auto simp: TARGET_NUM_TEST_PINS_def TARGET_TEST_PINS_def)
  show ?thesis
    unfolding m using clean_run [OF fr ne ah f] .
qed

theorem target_drives_clean_run_witness:
  "\<exists>s'. run TEST_LABELS (map (\<lambda>\<tau>. quiet_tick (5000 + word_of_nat \<tau>)
            (target_lines (fst (target_setup (\<lambda>t. True) 0)) \<tau>)) (map (\<lambda>i. 0 + 100 * i) [0..<75]))
          ((master_setup TEST_LABELS 0)\<lparr>state := STATE_WAIT_ALL_HIGH\<rparr>) = Some s' \<and>
        state s' = STATE_SUCCESS \<and> expectedIndex s' = 19"
proof -
  let ?\<tau>s = "map (\<lambda>i. 0 + 100 * i) [0..<75] :: nat list"
  have w: "serial_wait (\<lambda>t. True) 0 0 = 0" by (simp add: serial_wait.simps)
  have fr: "fresh_run TEST_LABELS ((master_setup TEST_LABELS 0)\<lparr>state := STATE_WAIT_ALL_HIGH\<rparr>)"
    by (simp add: fresh_run_def master_setup_def)
  have len: "length TEST_LABELS = TARGET_NUM_TEST_PINS"
    by (simp add: TEST_LABELS_def TARGET_NUM_TEST_PINS_def TARGET_TEST_PINS_def)
  have g: "gaps_ok ?\<tau>s" by (rule gaps_ok_periodic) simp
  have ne: "?\<tau>s \<noteq> []" by simp
  have h: "unat (serial_wait (\<lambda>t. True) 0 0) \<le> hd ?\<tau>s"
          "hd ?\<tau>s < unat (serial_wait (\<lambda>t. True) 0 0) + 1000"
          "unat (serial_wait (\<lambda>t. True) 0 0) + 7400 \<le> last ?\<tau>s"
    by (simp_all add: w hd_map last_map)
  have "[0..<75] = [0..<74] @ [74::nat]" using upt_Suc_append [of 0 74] by simp
  then have "butlast [0..<75] = [0..<74::nat]" by simp
  then have "butlast ?\<tau>s = map (\<lambda>i. 0 + 100 * i) [0..<74]"
    using map_butlast [of "\<lambda>i. 0 + 100 * i" "[0..<75::nat]"] by simp
  then have p: "\<forall>\<tau>\<in>set (butlast ?\<tau>s). \<tau> < unat (serial_wait (\<lambda>t. True) 0 0) + 7400"
    by (auto simp: w)
  have ah: "\<forall>i\<in>set []. t_cmd i = None \<and> \<not> all_at HIGH (t_pins i) \<and>
      \<not> t_now i - stateStartMs ((master_setup TEST_LABELS 0)\<lparr>state := STATE_WAIT_ALL_HIGH\<rparr>) > PRECHECK_TIMEOUT_MS"
    by simp
  have nw: "unat (0 :: u32) + 10700 < 2 ^ 32" by simp
  have n19: "int (length TEST_LABELS) = 19" by (simp add: TEST_LABELS_def)
  obtain s' where "run TEST_LABELS ([] @ map (\<lambda>\<tau>. quiet_tick (5000 + word_of_nat \<tau>)
            (target_lines (fst (target_setup (\<lambda>t. True) 0)) \<tau>)) ?\<tau>s)
          ((master_setup TEST_LABELS 0)\<lparr>state := STATE_WAIT_ALL_HIGH\<rparr>) = Some s'"
      "state s' = STATE_SUCCESS" "expectedIndex s' = int (length TEST_LABELS)"
    using target_drives_clean_run [OF fr len ah nw g ne h p, where D = 5000] by blast
  then show ?thesis unfolding n19 append_Nil by blast
qed

end
